theory Spec2Isabelle
  imports Main
begin

unbundle bit_operations_syntax

section \<open>Errors\<close>

text \<open>
  The exceptions that can travel through \<^verbatim>\<open>rogue_dhcp_server.py\<close>. Every one of them but
  \<open>KeyboardInterrupt\<close> derives from Python's \<^verbatim>\<open>Exception\<close>; \<^verbatim>\<open>socket.error\<close> is an alias
  of \<open>OSError\<close>. A computation that may raise returns \<open>error + 'a\<close>, \<open>Inl\<close> being the
  raise.
\<close>

datatype error =
    IndexError
  | ValueError
  | OSError
  | NoSectionError
  | NoOptionError
  | ParsingError
  | KeyboardInterrupt


section \<open>Packets\<close>

text \<open>
  An entry of a Scapy DHCP option list is a tuple \<^verbatim>\<open>(name, value)\<close>, a bare string such as
  \<^verbatim>\<open>"end"\<close> or \<^verbatim>\<open>"pad"\<close>, or the raw bytes of an option that could not be dissected.
\<close>

datatype opt_value = IntV int | StrV string

datatype dhcp_option = Opt string opt_value | Marker string | Raw "nat list"

text \<open>
  A captured packet, as far as the program reads it: \<^verbatim>\<open>packet[Ether].src\<close>,
  \<^verbatim>\<open>packet[BOOTP].xid\<close> and \<^verbatim>\<open>packet[DHCP].options\<close>. A layer that the packet does not
  have is \<open>None\<close>; indexing it raises \<open>IndexError\<close> in Scapy.
\<close>

record packet =
  Ether_src :: "string option"
  BOOTP_xid :: "nat option"
  DHCP_options :: "dhcp_option list option"

text \<open>The frame that a handler builds, layer by layer, and hands to \<^verbatim>\<open>sendp\<close>.\<close>

record frame =
  eth_src :: string
  eth_dst :: string
  ip_src :: string
  ip_dst :: string
  udp_sport :: nat
  udp_dport :: nat
  bootp_op :: nat
  bootp_xid :: nat
  bootp_yiaddr :: string
  bootp_siaddr :: string
  bootp_chaddr :: "nat list"
  dhcp_options :: "dhcp_option list"

section \<open>The libraries and the operating system\<close>

text \<open>
  What the program calls and does not define: Scapy's \<^verbatim>\<open>get_if_hwaddr\<close>, \<^verbatim>\<open>mac2str\<close> and
  \<^verbatim>\<open>sendp\<close>, the C library's \<^verbatim>\<open>inet_aton\<close> behind \<^verbatim>\<open>socket.inet_aton\<close>, and the IPv6
  branch of \<^verbatim>\<open>ipaddress.ip_network\<close> (the list of \<^verbatim>\<open>str(ip)\<close> over the hosts of the IPv6
  network that a string denotes, \<open>None\<close> when \<^verbatim>\<open>IPv6Network\<close> rejects the string). They
  are parameters of the model. An error raised while a frame is built or transmitted is the
  result of \<open>sendp\<close>. So is the file system: \<open>read_config file\<close> is the \<^verbatim>\<open>ConfigParser\<close>
  after \<^verbatim>\<open>config.read(file)\<close>, given by what its \<^verbatim>\<open>get\<close> and \<^verbatim>\<open>getint\<close> return or raise
  for a section and a key.

  Scapy's \<^verbatim>\<open>sniff\<close> is a parameter in three respects. \<open>open_capture iface\<close> is the error it
  raises when it sets the capture up on the interface, before any frame is read (the
  interface does not exist, the raw socket is refused), \<open>None\<close> when the capture opens.
  What becomes of an exception raised later differs between Scapy releases and settings:
  \<open>callback_error_leaves_sniff\<close> says whether an exception of the callback leaves the
  \<^verbatim>\<open>sniff\<close> call, and \<open>recv_error_leaves_sniff\<close> whether an exception of reading a frame
  does; where it does not, \<^verbatim>\<open>sniff\<close> warns, closes its socket and returns.
\<close>

record ConfigParser =
  config_get :: "string \<Rightarrow> string \<Rightarrow> error + string"
  config_getint :: "string \<Rightarrow> string \<Rightarrow> error + int"

record env =
  read_config :: "string \<Rightarrow> error + ConfigParser"
  get_if_hwaddr :: "string \<Rightarrow> error + string"
  mac2str :: "string \<Rightarrow> error + nat list"
  inet_aton :: "string \<Rightarrow> error + nat list"
  sendp :: "frame \<Rightarrow> string \<Rightarrow> error option"
  IPv6Network_hosts :: "string \<Rightarrow> string list option"
  open_capture :: "string \<Rightarrow> error option"
  callback_error_leaves_sniff :: bool
  recv_error_leaves_sniff :: bool

section \<open>The responder\<close>

record RogueDHCPServer =
  interface :: string
  ip_pool :: string
  subnet_mask :: string
  gateway :: string
  dns_servers :: "string list"
  lease_time :: int
  allocated_ips :: "string \<rightharpoonup> string"
  server_ip :: string
  available_ips :: "string list"

text \<open>
  \<^verbatim>\<open>is_valid_ip\<close>: \<^verbatim>\<open>socket.inet_aton(ip)\<close> in a \<^verbatim>\<open>try\<close> that catches \<^verbatim>\<open>socket.error\<close> only;
  any other exception (a \<open>ValueError\<close> for an embedded null character, say) goes on.
\<close>

definition is_valid_ip :: "env \<Rightarrow> string \<Rightarrow> error + bool" where
  "is_valid_ip env ip =
     (case inet_aton env ip of
        Inr _ \<Rightarrow> Inr True
      | Inl e \<Rightarrow> if e = OSError then Inr False else Inl e)"

text \<open>The comprehension \<^verbatim>\<open>[ip for ip in self.dns_servers if is_valid_ip(ip)]\<close>.\<close>

fun valid_dns :: "env \<Rightarrow> string list \<Rightarrow> error + string list" where
  "valid_dns env [] = Inr []"
| "valid_dns env (ip # ips) =
     (case is_valid_ip env ip of
        Inl e \<Rightarrow> Inl e
      | Inr b \<Rightarrow>
          (case valid_dns env ips of
             Inl e \<Rightarrow> Inl e
           | Inr rest \<Rightarrow> Inr (if b then ip # rest else rest)))"

text \<open>\<^verbatim>\<open>packet[DHCP].options[0][1]\<close>, on the option list of the DHCP layer.\<close>

fun first_option_value :: "dhcp_option list \<Rightarrow> error + opt_value" where
  "first_option_value [] = Inl IndexError"
| "first_option_value (Opt name v # _) = Inr v"
| "first_option_value (Marker s # _) =
     (if 2 \<le> length s then Inr (StrV [s ! 1]) else Inl IndexError)"
| "first_option_value (Raw bs # _) =
     (if 2 \<le> length bs then Inr (IntV (int (bs ! 1))) else Inl IndexError)"

text \<open>
  The layers of a reply; \<open>kind\<close> is \<^verbatim>\<open>"offer"\<close> or \<^verbatim>\<open>"ack"\<close>, \<open>name_server\<close> is
  \<^verbatim>\<open>valid_dns[0] if valid_dns else self.gateway\<close>.
\<close>

definition name_server_of :: "RogueDHCPServer \<Rightarrow> string list \<Rightarrow> string" where
  "name_server_of self vdns = (case vdns of [] \<Rightarrow> gateway self | d # _ \<Rightarrow> d)"

definition reply_frame ::
  "RogueDHCPServer \<Rightarrow> string \<Rightarrow> string \<Rightarrow> nat \<Rightarrow> string \<Rightarrow> nat list \<Rightarrow> string list \<Rightarrow> frame" where
  "reply_frame self kind hwaddr transaction_id yiaddr chaddr vdns =
     \<lparr> eth_src = hwaddr, eth_dst = ''ff:ff:ff:ff:ff:ff'',
       ip_src = server_ip self, ip_dst = ''255.255.255.255'',
       udp_sport = 67, udp_dport = 68,
       bootp_op = 2, bootp_xid = transaction_id, bootp_yiaddr = yiaddr,
       bootp_siaddr = server_ip self, bootp_chaddr = chaddr,
       dhcp_options =
         [ Opt ''message-type'' (StrV kind),
           Opt ''server_id'' (StrV (server_ip self)),
           Opt ''subnet_mask'' (StrV (subnet_mask self)),
           Opt ''router'' (StrV (gateway self)),
           Opt ''name_server'' (StrV (name_server_of self vdns)),
           Opt ''lease_time'' (IntV (lease_time self)),
           Marker ''end'' ] \<rparr>"

text \<open>
  The tail of both handlers, in Python's order of evaluation: the DNS list is filtered,
  \<^verbatim>\<open>get_if_hwaddr\<close> is called for the Ethernet layer, \<^verbatim>\<open>mac2str\<close> for the BOOTP layer, and
  the frame is transmitted. The result is the frame that went out.
\<close>

definition build_and_send ::
  "env \<Rightarrow> RogueDHCPServer \<Rightarrow> string \<Rightarrow> string \<Rightarrow> nat \<Rightarrow> string \<Rightarrow> error + frame" where
  "build_and_send env self kind client_mac transaction_id yiaddr =
     (case valid_dns env (dns_servers self) of
        Inl e \<Rightarrow> Inl e
      | Inr vdns \<Rightarrow>
          (case get_if_hwaddr env (interface self) of
             Inl e \<Rightarrow> Inl e
           | Inr hwaddr \<Rightarrow>
               (case mac2str env client_mac of
                  Inl e \<Rightarrow> Inl e
                | Inr chaddr \<Rightarrow>
                    (let f = reply_frame self kind hwaddr transaction_id yiaddr chaddr vdns
                     in case sendp env f (interface self) of
                          Some e \<Rightarrow> Inl e
                        | None \<Rightarrow> Inr f))))"

text \<open>
  \<^verbatim>\<open>handle_dhcp_discover\<close>. The result is the responder after the call and the frames
  transmitted during it. The pool is popped and the table written before anything that can
  raise in the tail. The \<^verbatim>\<open>logger.info\<close> lines of the handlers write to the log stream
  only and are left out; the one log line that is modelled is the error of the entry block.
\<close>

definition handle_dhcp_discover ::
  "env \<Rightarrow> RogueDHCPServer \<Rightarrow> packet \<Rightarrow> error + (RogueDHCPServer \<times> frame list)" where
  "handle_dhcp_discover env self packet =
     (case DHCP_options packet of
        None \<Rightarrow> Inr (self, [])
      | Some options \<Rightarrow>
          (case first_option_value options of
             Inl e \<Rightarrow> Inl e
           | Inr t \<Rightarrow>
               if t \<noteq> IntV 1 then Inr (self, [])
               else
                 (case Ether_src packet of
                    None \<Rightarrow> Inl IndexError
                  | Some client_mac \<Rightarrow>
                      (case BOOTP_xid packet of
                         None \<Rightarrow> Inl IndexError
                       | Some transaction_id \<Rightarrow>
                           (case available_ips self of
                              [] \<Rightarrow> Inr (self, [])
                            | offered_ip # rest \<Rightarrow>
                                (let self' = self
                                       \<lparr> available_ips := rest,
                                         allocated_ips :=
                                           (allocated_ips self)(client_mac \<mapsto> offered_ip) \<rparr>
                                 in case build_and_send env self' ''offer'' client_mac
                                           transaction_id offered_ip of
                                      Inl e \<Rightarrow> Inl e
                                    | Inr dhcp_offer \<Rightarrow> Inr (self', [dhcp_offer])))))))"

text \<open>\<^verbatim>\<open>handle_dhcp_request\<close>.\<close>

definition handle_dhcp_request ::
  "env \<Rightarrow> RogueDHCPServer \<Rightarrow> packet \<Rightarrow> error + (RogueDHCPServer \<times> frame list)" where
  "handle_dhcp_request env self packet =
     (case DHCP_options packet of
        None \<Rightarrow> Inr (self, [])
      | Some options \<Rightarrow>
          (case first_option_value options of
             Inl e \<Rightarrow> Inl e
           | Inr t \<Rightarrow>
               if t \<noteq> IntV 3 then Inr (self, [])
               else
                 (case Ether_src packet of
                    None \<Rightarrow> Inl IndexError
                  | Some client_mac \<Rightarrow>
                      (case BOOTP_xid packet of
                         None \<Rightarrow> Inl IndexError
                       | Some transaction_id \<Rightarrow>
                           (case allocated_ips self client_mac of
                              None \<Rightarrow> Inr (self, [])
                            | Some assigned_ip \<Rightarrow>
                                (case build_and_send env self ''ack'' client_mac
                                        transaction_id assigned_ip of
                                   Inl e \<Rightarrow> Inl e
                                 | Inr dhcp_ack \<Rightarrow> Inr (self, [dhcp_ack])))))))"

text \<open>\<^verbatim>\<open>process_packet\<close>: the dispatch on the first option's value.\<close>

definition process_packet ::
  "env \<Rightarrow> RogueDHCPServer \<Rightarrow> packet \<Rightarrow> error + (RogueDHCPServer \<times> frame list)" where
  "process_packet env self packet =
     (case DHCP_options packet of
        None \<Rightarrow> Inr (self, [])
      | Some options \<Rightarrow>
          (case first_option_value options of
             Inl e \<Rightarrow> Inl e
           | Inr message_type \<Rightarrow>
               if message_type = IntV 1 then handle_dhcp_discover env self packet
               else if message_type = IntV 3 then handle_dhcp_request env self packet
               else Inr (self, [])))"

section \<open>Strings\<close>

text \<open>
  Python strings are lists of characters here, a character being its code point (below 256).
  \<open>split_str sep s\<close> is \<^verbatim>\<open>s.split(sep)\<close> for a separator of one character: one more piece
  than there are separators, empty pieces kept.
\<close>

fun split_str :: "char \<Rightarrow> string \<Rightarrow> string list" where
  "split_str sep [] = [[]]"
| "split_str sep (c # cs) =
     (if c = sep then [] # split_str sep cs
      else (case split_str sep cs of
              [] \<Rightarrow> [[c]]
            | w # ws \<Rightarrow> (c # w) # ws))"

text \<open>\<^verbatim>\<open>sep.join(pieces)\<close>.\<close>

fun join_str :: "string \<Rightarrow> string list \<Rightarrow> string" where
  "join_str sep [] = []"
| "join_str sep [w] = w"
| "join_str sep (w # v # ws) = w @ sep @ join_str sep (v # ws)"

text \<open>\<^verbatim>\<open>c.isspace()\<close> on the code points below 256, and \<^verbatim>\<open>s.strip()\<close>.\<close>

definition isspace :: "char \<Rightarrow> bool" where
  "isspace c = ((of_char c :: nat) \<in> {9, 10, 11, 12, 13, 28, 29, 30, 31, 32, 133, 160})"

definition strip :: "string \<Rightarrow> string" where
  "strip s = rev (dropWhile isspace (rev (dropWhile isspace s)))"

text \<open>\<^verbatim>\<open>s.isascii() and s.isdigit()\<close>: not empty, and ASCII decimal digits only.\<close>

definition is_decimal_digit :: "char \<Rightarrow> bool" where
  "is_decimal_digit c = (48 \<le> (of_char c :: nat) \<and> (of_char c :: nat) \<le> 57)"

definition isascii_isdigit :: "string \<Rightarrow> bool" where
  "isascii_isdigit s = (s \<noteq> [] \<and> list_all is_decimal_digit s)"

text \<open>\<^verbatim>\<open>int(s, 10)\<close> on a string of ASCII decimal digits, and \<^verbatim>\<open>str(n)\<close> for \<open>n \<ge> 0\<close>.\<close>

definition int_of_digits :: "string \<Rightarrow> int" where
  "int_of_digits s = foldl (\<lambda>a c. 10 * a + (int (of_char c) - 48)) 0 s"

fun str_nat :: "nat \<Rightarrow> string" where
  "str_nat n =
     (if n < 10 then [char_of (48 + n)]
      else str_nat (n div 10) @ [char_of (48 + n mod 10)])"

definition str_int :: "int \<Rightarrow> string" where
  "str_int i = (if i < 0 then CHR ''-'' # str_nat (nat (- i)) else str_nat (nat i))"

section \<open>The IPv4 part of Python's \<^verbatim>\<open>ipaddress\<close> module\<close>

text \<open>
  After \<^verbatim>\<open>Lib/ipaddress.py\<close> of CPython 3.11. Addresses are Python integers. \<open>None\<close>
  stands for the module's \<^verbatim>\<open>AddressValueError\<close> and \<^verbatim>\<open>NetmaskValueError\<close>, which
  \<^verbatim>\<open>ip_network\<close> catches alike.
\<close>

definition ALL_ONES :: int where
  "ALL_ONES = 2 ^ 32 - 1"

definition max_prefixlen :: nat where
  "max_prefixlen = 32"

definition parse_octet :: "string \<Rightarrow> int option" where
  "parse_octet octet_str =
     (if octet_str = [] then None
      else if \<not> isascii_isdigit octet_str then None
      else if length octet_str > 3 then None
      else if octet_str \<noteq> ''0'' \<and> hd octet_str = CHR ''0'' then None
      else (let octet_int = int_of_digits octet_str
            in if octet_int > 255 then None else Some octet_int))"

text \<open>\<^verbatim>\<open>int.from_bytes(bs, 'big')\<close> and \<^verbatim>\<open>n.to_bytes(4, 'big')\<close>.\<close>

definition from_bytes :: "int list \<Rightarrow> int" where
  "from_bytes bs = foldl (\<lambda>a b. 256 * a + b) 0 bs"

definition to_bytes4 :: "int \<Rightarrow> int list" where
  "to_bytes4 n = [n div 2 ^ 24 mod 256, n div 2 ^ 16 mod 256, n div 2 ^ 8 mod 256, n mod 256]"

fun all_some :: "'a option list \<Rightarrow> 'a list option" where
  "all_some [] = Some []"
| "all_some (None # _) = None"
| "all_some (Some x # xs) = (case all_some xs of None \<Rightarrow> None | Some ys \<Rightarrow> Some (x # ys))"

definition ip_int_from_string :: "string \<Rightarrow> int option" where
  "ip_int_from_string ip_str =
     (if ip_str = [] then None
      else (let octets = split_str CHR ''.'' ip_str
            in if length octets \<noteq> 4 then None
               else (case all_some (map parse_octet octets) of
                       None \<Rightarrow> None
                     | Some bs \<Rightarrow> Some (from_bytes bs))))"

definition string_from_ip_int :: "int \<Rightarrow> string" where
  "string_from_ip_int ip_int = join_str ''.'' (map str_int (to_bytes4 ip_int))"

fun bit_length_nat :: "nat \<Rightarrow> nat" where
  "bit_length_nat n = (if n = 0 then 0 else Suc (bit_length_nat (n div 2)))"

definition bit_length :: "int \<Rightarrow> nat" where
  "bit_length i = bit_length_nat (nat \<bar>i\<bar>)"

definition count_righthand_zero_bits :: "int \<Rightarrow> nat \<Rightarrow> nat" where
  "count_righthand_zero_bits number bits =
     (if number = 0 then bits
      else min bits (bit_length (NOT number AND (number - 1))))"

definition ip_int_from_prefix :: "nat \<Rightarrow> int" where
  "ip_int_from_prefix prefixlen = ALL_ONES XOR (drop_bit prefixlen ALL_ONES)"

definition prefix_from_ip_int :: "int \<Rightarrow> nat option" where
  "prefix_from_ip_int ip_int =
     (let trailing_zeroes = count_righthand_zero_bits ip_int max_prefixlen;
          prefixlen = max_prefixlen - trailing_zeroes;
          leading_ones = drop_bit trailing_zeroes ip_int;
          all_ones = push_bit prefixlen 1 - 1
      in if leading_ones \<noteq> all_ones then None else Some prefixlen)"

definition prefix_from_prefix_string :: "string \<Rightarrow> nat option" where
  "prefix_from_prefix_string prefixlen_str =
     (if \<not> isascii_isdigit prefixlen_str then None
      else (let prefixlen = int_of_digits prefixlen_str
            in if \<not> (0 \<le> prefixlen \<and> prefixlen \<le> int max_prefixlen) then None
               else Some (nat prefixlen)))"

definition prefix_from_ip_string :: "string \<Rightarrow> nat option" where
  "prefix_from_ip_string ip_str =
     (case ip_int_from_string ip_str of
        None \<Rightarrow> None
      | Some ip_int \<Rightarrow>
          (case prefix_from_ip_int ip_int of
             Some p \<Rightarrow> Some p
           | None \<Rightarrow> prefix_from_ip_int (ip_int XOR ALL_ONES)))"

text \<open>
  \<^verbatim>\<open>_make_netmask\<close>; the argument is \<open>None\<close> when the string had no \<^verbatim>\<open>/\<close> (the module then
  passes the integer 32).
\<close>

definition make_netmask :: "string option \<Rightarrow> (int \<times> nat) option" where
  "make_netmask arg =
     (case (case arg of
              None \<Rightarrow> Some max_prefixlen
            | Some s \<Rightarrow>
                (case prefix_from_prefix_string s of
                   Some p \<Rightarrow> Some p
                 | None \<Rightarrow> prefix_from_ip_string s)) of
        None \<Rightarrow> None
      | Some prefixlen \<Rightarrow> Some (ip_int_from_prefix prefixlen, prefixlen))"

definition split_addr_prefix :: "string \<Rightarrow> (string \<times> string option) option" where
  "split_addr_prefix address =
     (case split_str CHR ''/'' address of
        [a] \<Rightarrow> Some (a, None)
      | [a, m] \<Rightarrow> Some (a, Some m)
      | _ \<Rightarrow> None)"

text \<open>
  An \<^verbatim>\<open>IPv4Network\<close> built with \<^verbatim>\<open>strict=False\<close>: host bits of the address are masked
  away. \<open>addr\<close> is the address as it was written, which \<^verbatim>\<open>hosts\<close> returns for a /32.
\<close>

record IPv4Network =
  network_address :: int
  netmask :: int
  prefixlen :: nat
  addr :: int

definition IPv4Network_init :: "string \<Rightarrow> IPv4Network option" where
  "IPv4Network_init address =
     (case split_addr_prefix address of
        None \<Rightarrow> None
      | Some (a, netmask_arg) \<Rightarrow>
          (case ip_int_from_string a of
             None \<Rightarrow> None
           | Some packed \<Rightarrow>
               (case make_netmask netmask_arg of
                  None \<Rightarrow> None
                | Some (nm, p) \<Rightarrow>
                    Some \<lparr> network_address =
                             (if packed AND nm \<noteq> packed then packed AND nm else packed),
                           netmask = nm, prefixlen = p, addr = packed \<rparr>)))"

definition hostmask :: "IPv4Network \<Rightarrow> int" where
  "hostmask n = netmask n XOR ALL_ONES"

definition broadcast_address :: "IPv4Network \<Rightarrow> int" where
  "broadcast_address n = network_address n OR hostmask n"

text \<open>\<^verbatim>\<open>__iter__\<close>: every address of the block, \<^verbatim>\<open>range(network, broadcast + 1)\<close>.\<close>

definition IPv4Network_iter :: "IPv4Network \<Rightarrow> int list" where
  "IPv4Network_iter n = [network_address n .. broadcast_address n]"

text \<open>
  \<^verbatim>\<open>hosts()\<close>: \<^verbatim>\<open>range(network + 1, broadcast)\<close>, but the constructor replaces it by
  \<^verbatim>\<open>__iter__\<close> (both addresses) for a /31 and by the one address for a /32.
\<close>

definition hosts :: "IPv4Network \<Rightarrow> int list" where
  "hosts n =
     (if prefixlen n = max_prefixlen - 1 then IPv4Network_iter n
      else if prefixlen n = max_prefixlen then [addr n]
      else [network_address n + 1 .. broadcast_address n - 1])"

text \<open>
  \<^verbatim>\<open>[str(ip) for ip in ipaddress.ip_network(ip_pool, strict=False).hosts()]\<close>: the IPv4
  network if the string denotes one, else the IPv6 one, else \<open>ValueError\<close>.
\<close>

definition ip_network_hosts :: "env \<Rightarrow> string \<Rightarrow> error + string list" where
  "ip_network_hosts env address =
     (case IPv4Network_init address of
        Some network \<Rightarrow> Inr (map string_from_ip_int (hosts network))
      | None \<Rightarrow>
          (case IPv6Network_hosts env address of
             Some hs \<Rightarrow> Inr hs
           | None \<Rightarrow> Inl ValueError))"

text \<open>\<^verbatim>\<open>RogueDHCPServer.__init__\<close>.\<close>

definition init ::
  "env \<Rightarrow> string \<Rightarrow> string \<Rightarrow> string \<Rightarrow> string \<Rightarrow> string list \<Rightarrow> int \<Rightarrow> error + RogueDHCPServer" where
  "init env interface' ip_pool' subnet_mask' gateway' dns_servers' lease_time' =
     (case ip_network_hosts env ip_pool' of
        Inl e \<Rightarrow> Inl e
      | Inr hs \<Rightarrow>
          Inr \<lparr> interface = interface', ip_pool = ip_pool', subnet_mask = subnet_mask',
                gateway = gateway', dns_servers = dns_servers', lease_time = lease_time',
                allocated_ips = Map.empty, server_ip = gateway', available_ips = hs \<rparr>)"

section \<open>The dispatch loop\<close>

text \<open>
  What the loop of the blocking \<^verbatim>\<open>sniff\<close> call meets, in order: a frame that passed the
  capture filter and is handed to \<^verbatim>\<open>process_packet\<close>, or an exception raised by reading a
  frame. The loop ends, and \<^verbatim>\<open>sniff\<close> returns, when it is interrupted from the keyboard,
  whether the interrupt arrives while it waits or inside the callback. Any other exception
  either leaves \<^verbatim>\<open>sniff\<close> and reaches the caller or is caught by \<^verbatim>\<open>sniff\<close> itself, which
  then returns; which of the two is the environment's. A finite list of events ends with
  the loop waiting for the next frame. \<open>sniff\<close> below is this loop; the set-up of the
  capture, which precedes it, is in \<open>start\<close>.
\<close>

datatype event = Captured packet | Raised error

datatype capture = Stopped "frame list" | Waiting RogueDHCPServer "frame list"

fun sniff :: "env \<Rightarrow> RogueDHCPServer \<Rightarrow> event list \<Rightarrow> error + capture" where
  "sniff env self [] = Inr (Waiting self [])"
| "sniff env self (Raised e # _) =
     (if e = KeyboardInterrupt \<or> \<not> recv_error_leaves_sniff env then Inr (Stopped [])
      else Inl e)"
| "sniff env self (Captured p # es) =
     (case process_packet env self p of
        Inl e \<Rightarrow>
          if e = KeyboardInterrupt \<or> \<not> callback_error_leaves_sniff env then Inr (Stopped [])
          else Inl e
      | Inr (self', out) \<Rightarrow>
          (case sniff env self' es of
             Inl e \<Rightarrow> Inl e
           | Inr (Stopped out') \<Rightarrow> Inr (Stopped (out @ out'))
           | Inr (Waiting self'' out') \<Rightarrow> Inr (Waiting self'' (out @ out'))))"


section \<open>Configuration and process entry\<close>

record config =
  config_interface :: string
  config_ip_pool :: string
  config_subnet_mask :: string
  config_gateway :: string
  config_dns_servers :: "string list"
  config_lease_time :: int

text \<open>\<^verbatim>\<open>load_config\<close>: the six keys of section \<^verbatim>\<open>DHCP\<close>, read in this order.\<close>

definition load_config :: "env \<Rightarrow> string \<Rightarrow> error + config" where
  "load_config env config_file =
     (case read_config env config_file of
        Inl e \<Rightarrow> Inl e
      | Inr cp \<Rightarrow>
     (case config_get cp ''DHCP'' ''interface'' of
        Inl e \<Rightarrow> Inl e
      | Inr i \<Rightarrow>
     (case config_get cp ''DHCP'' ''ip_pool'' of
        Inl e \<Rightarrow> Inl e
      | Inr p \<Rightarrow>
     (case config_get cp ''DHCP'' ''subnet_mask'' of
        Inl e \<Rightarrow> Inl e
      | Inr m \<Rightarrow>
     (case config_get cp ''DHCP'' ''gateway'' of
        Inl e \<Rightarrow> Inl e
      | Inr g \<Rightarrow>
     (case config_get cp ''DHCP'' ''dns_servers'' of
        Inl e \<Rightarrow> Inl e
      | Inr d \<Rightarrow>
     (case config_getint cp ''DHCP'' ''lease_time'' of
        Inl e \<Rightarrow> Inl e
      | Inr l \<Rightarrow>
          Inr \<lparr> config_interface = i, config_ip_pool = p, config_subnet_mask = m,
                config_gateway = g,
                config_dns_servers = map strip (split_str CHR '','' d),
                config_lease_time = l \<rparr>)))))))"



section \<open>Reading frames and sessions\<close>

text \<open>The value of the first option of a given name in a frame's option list.\<close>

fun option_value :: "string \<Rightarrow> dhcp_option list \<Rightarrow> opt_value option" where
  "option_value name [] = None"
| "option_value name (Opt n v # os) = (if n = name then Some v else option_value name os)"
| "option_value name (_ # os) = option_value name os"

definition is_offer :: "frame \<Rightarrow> bool" where
  "is_offer f = (option_value ''message-type'' (dhcp_options f) = Some (StrV ''offer''))"

definition is_ack :: "frame \<Rightarrow> bool" where
  "is_ack f = (option_value ''message-type'' (dhcp_options f) = Some (StrV ''ack''))"

text \<open>
  A Discover (a Request) as the handlers see one: a frame with the Ethernet, BOOTP and DHCP
  layers whose first DHCP option has the value 1 (3).
\<close>

definition message_type :: "packet \<Rightarrow> opt_value option" where
  "message_type p =
     (case DHCP_options p of
        None \<Rightarrow> None
      | Some options \<Rightarrow>
          (case first_option_value options of Inl _ \<Rightarrow> None | Inr v \<Rightarrow> Some v))"

definition is_discover :: "packet \<Rightarrow> bool" where
  "is_discover p =
     (message_type p = Some (IntV 1) \<and> Ether_src p \<noteq> None \<and> BOOTP_xid p \<noteq> None)"

definition is_request :: "packet \<Rightarrow> bool" where
  "is_request p =
     (message_type p = Some (IntV 3) \<and> Ether_src p \<noteq> None \<and> BOOTP_xid p \<noteq> None)"

definition discover :: "string \<Rightarrow> nat \<Rightarrow> packet" where
  "discover mac xid =
     \<lparr> Ether_src = Some mac, BOOTP_xid = Some xid,
       DHCP_options = Some [Opt ''message-type'' (IntV 1), Marker ''end''] \<rparr>"

definition request :: "string \<Rightarrow> nat \<Rightarrow> packet" where
  "request mac xid =
     \<lparr> Ether_src = Some mac, BOOTP_xid = Some xid,
       DHCP_options = Some [Opt ''message-type'' (IntV 3), Marker ''end''] \<rparr>"

section \<open>A configuration to run\<close>

text \<open>
  The scenario of the specification: pool \<^verbatim>\<open>192.168.50.0/29\<close>, gateway \<^verbatim>\<open>192.168.50.1\<close>,
  one DNS server, on an interface whose calls all succeed.
\<close>

definition example_parser :: ConfigParser where
  "example_parser =
     \<lparr> config_get = (\<lambda>section key.
         if section \<noteq> ''DHCP'' then Inl NoSectionError
         else if key = ''interface'' then Inr ''eth0''
         else if key = ''ip_pool'' then Inr ''192.168.50.0/29''
         else if key = ''subnet_mask'' then Inr ''255.255.255.248''
         else if key = ''gateway'' then Inr ''192.168.50.1''
         else if key = ''dns_servers'' then Inr ''not-an-ip, 8.8.8.8, 1.1.1.1''
         else if key = ''lease_time'' then Inr ''300''
         else Inl NoOptionError),
       config_getint = (\<lambda>section key.
         if section \<noteq> ''DHCP'' then Inl NoSectionError
         else if key = ''lease_time'' then Inr 300
         else if key \<in> {''interface'', ''ip_pool'', ''subnet_mask'', ''gateway'', ''dns_servers''}
           then Inl ValueError
         else Inl NoOptionError) \<rparr>"

definition missing_parser :: ConfigParser where
  "missing_parser =
     \<lparr> config_get = (\<lambda>section key. Inl NoSectionError),
       config_getint = (\<lambda>section key. Inl NoSectionError) \<rparr>"

definition example_env :: env where
  "example_env =
     \<lparr> read_config = (\<lambda>file. if file = ''config.ini'' then Inr example_parser
                                else Inr missing_parser),
       get_if_hwaddr = (\<lambda>iface. if iface = ''eth0'' then Inr ''02:00:00:00:00:01''
                                  else Inl OSError),
       mac2str = (\<lambda>mac.
         if mac = ''aa:bb:cc:00:00:01'' then Inr [170, 187, 204, 0, 0, 1]
         else if mac = ''aa:bb:cc:00:00:02'' then Inr [170, 187, 204, 0, 0, 2]
         else Inl ValueError),
       inet_aton = (\<lambda>ip.
         if ip = ''8.8.8.8'' then Inr [8, 8, 8, 8]
         else if ip = ''1.1.1.1'' then Inr [1, 1, 1, 1]
         else Inl OSError),
       sendp = (\<lambda>f iface. None),
       IPv6Network_hosts = (\<lambda>address. None),
       open_capture = (\<lambda>iface. if iface = ''eth0'' then None else Some OSError),
       callback_error_leaves_sniff = False,
       recv_error_leaves_sniff = False \<rparr>"

text \<open>
  The same machine with a link on which nothing can be transmitted; the same again under
  a Scapy that lets the exceptions of the callback through; and the machine without
  permission to capture on any interface.
\<close>

definition link_down_env :: env where
  "link_down_env = example_env \<lparr> sendp := (\<lambda>f iface. Some OSError) \<rparr>"



definition example_server :: RogueDHCPServer where
  "example_server =
     \<lparr> interface = ''eth0'', ip_pool = ''192.168.50.0/29'',
       subnet_mask = ''255.255.255.248'', gateway = ''192.168.50.1'',
       dns_servers = [''not-an-ip'', ''8.8.8.8'', ''1.1.1.1''], lease_time = 300,
       allocated_ips = Map.empty, server_ip = ''192.168.50.1'',
       available_ips = [''192.168.50.1'', ''192.168.50.2'', ''192.168.50.3'',
         ''192.168.50.4'', ''192.168.50.5'', ''192.168.50.6''] \<rparr>"

text \<open>The responder after it has offered its first address to one client.\<close>

definition leased_server :: RogueDHCPServer where
  "leased_server =
     example_server
       \<lparr> available_ips := [''192.168.50.2'', ''192.168.50.3'', ''192.168.50.4'',
           ''192.168.50.5'', ''192.168.50.6''],
         allocated_ips := [''aa:bb:cc:00:00:01'' \<mapsto> ''192.168.50.1''] \<rparr>"

text \<open>The Offer that this first client was sent, for a Discover with transaction id 7.\<close>

definition example_offer :: frame where
  "example_offer =
     reply_frame example_server ''offer'' ''02:00:00:00:00:01'' 7 ''192.168.50.1''
       [170, 187, 204, 0, 0, 1] [''8.8.8.8'', ''1.1.1.1'']"

text \<open>
  The replies to that client in general, and the responder after a second Discover of the
  same client.
\<close>

definition example_reply :: "string \<Rightarrow> nat \<Rightarrow> string \<Rightarrow> frame" where
  "example_reply kind xid ip =
     reply_frame example_server kind ''02:00:00:00:00:01'' xid ip
       [170, 187, 204, 0, 0, 1] [''8.8.8.8'', ''1.1.1.1'']"

definition twice_leased_server :: RogueDHCPServer where
  "twice_leased_server =
     example_server
       \<lparr> available_ips := [''192.168.50.3'', ''192.168.50.4'', ''192.168.50.5'',
           ''192.168.50.6''],
         allocated_ips := [''aa:bb:cc:00:00:01'' \<mapsto> ''192.168.50.2''] \<rparr>"

text \<open>A point-to-point pool, \<^verbatim>\<open>10.0.0.2/31\<close>, and the responder built on it.\<close>

definition point_to_point_network :: IPv4Network where
  "point_to_point_network =
     \<lparr> network_address = 167772162, netmask = 4294967294, prefixlen = 31, addr = 167772162 \<rparr>"

definition point_to_point_server :: RogueDHCPServer where
  "point_to_point_server =
     \<lparr> interface = ''eth0'', ip_pool = ''10.0.0.2/31'',
       subnet_mask = ''255.255.255.254'', gateway = ''10.0.0.2'',
       dns_servers = [''8.8.8.8''], lease_time = 300,
       allocated_ips = Map.empty, server_ip = ''10.0.0.2'',
       available_ips = [''10.0.0.2'', ''10.0.0.3''] \<rparr>"

section \<open>Sessions in which no library call fails\<close>

text \<open>
  The interface has a hardware address, \<^verbatim>\<open>inet_aton\<close> raises nothing but \<^verbatim>\<open>socket.error\<close>
  on the configured DNS entries, \<^verbatim>\<open>mac2str\<close> converts the source address of every packet of
  the session, and every transmission on the interface succeeds.
\<close>

definition calls_succeed :: "env \<Rightarrow> RogueDHCPServer \<Rightarrow> packet list \<Rightarrow> bool" where
  "calls_succeed env self ps =
     ((\<exists>hw. get_if_hwaddr env (interface self) = Inr hw) \<and>
      (\<forall>ip \<in> set (dns_servers self). \<exists>b. is_valid_ip env ip = Inr b) \<and>
      (\<forall>p \<in> set ps. \<forall>mac. Ether_src p = Some mac \<longrightarrow> (\<exists>ch. mac2str env mac = Inr ch)) \<and>
      (\<forall>f. sendp env f (interface self) = None))"

section \<open>Properties of the handlers\<close>

lemma build_and_send_frame:
  "build_and_send env self kind mac xid ip = Inr f \<Longrightarrow>
     \<exists>vdns hw ch. valid_dns env (dns_servers self) = Inr vdns \<and>
        get_if_hwaddr env (interface self) = Inr hw \<and> mac2str env mac = Inr ch \<and>
        f = reply_frame self kind hw xid ip ch vdns \<and> sendp env f (interface self) = None"
  by (auto simp: build_and_send_def Let_def split: sum.splits option.splits)

lemma handle_dhcp_request_state:
  "handle_dhcp_request env self p = Inr (self', out) \<Longrightarrow> self' = self"
  by (auto simp: handle_dhcp_request_def split: option.splits sum.splits if_splits)

text \<open>
  C6. A Request whose client hardware address has no entry in the allocation table is
  ignored: the Request handler, and the dispatch that calls it, return without an error,
  transmit no frame at all (so no NAK either) and leave the responder as it was.
\<close>

theorem request_unknown_mac_is_noop:
  "is_request p \<Longrightarrow> Ether_src p = Some mac \<Longrightarrow> allocated_ips self mac = None \<Longrightarrow>
     handle_dhcp_request env self p = Inr (self, []) \<and>
     process_packet env self p = Inr (self, [])"
  by (auto simp: handle_dhcp_request_def process_packet_def is_request_def message_type_def
           split: option.splits sum.splits if_splits)

theorem request_unknown_mac_is_noop_witness:
  "handle_dhcp_request example_env leased_server (request ''aa:bb:cc:00:00:02'' 7)
     = Inr (leased_server, []) \<and>
   process_packet example_env leased_server (request ''aa:bb:cc:00:00:02'' 7)
     = Inr (leased_server, [])"
proof -
  have r: "is_request (request ''aa:bb:cc:00:00:02'' 7)"
    by (simp add: is_request_def message_type_def request_def)
  have m: "Ether_src (request ''aa:bb:cc:00:00:02'' 7) = Some ''aa:bb:cc:00:00:02''"
    by (simp add: request_def)
  have a: "allocated_ips leased_server ''aa:bb:cc:00:00:02'' = None"
    by (simp add: leased_server_def)
  show ?thesis
    using request_unknown_mac_is_noop [OF r m a, of example_env] by simp
qed

text \<open>
  C10. The Request handler is read-only: whenever it returns, the responder (the pool and
  the allocation table with it) is the one it was called on. A dispatch that returns a
  changed responder was a dispatch to the Discover handler.
\<close>

theorem request_handler_preserves_state:
  "(handle_dhcp_request env self p = Inr (self', out) \<longrightarrow> self' = self) \<and>
   (process_packet env self p = Inr (self'', out') \<and> self'' \<noteq> self \<longrightarrow>
      message_type p = Some (IntV 1) \<and> handle_dhcp_discover env self p = Inr (self'', out'))"
  by (auto simp: process_packet_def message_type_def
           split: option.splits sum.splits if_splits dest: handle_dhcp_request_state)

theorem request_handler_preserves_state_witness:
  "(\<exists>out. handle_dhcp_request example_env leased_server (request ''aa:bb:cc:00:00:01'' 7)
       = Inr (leased_server, out) \<and> out \<noteq> []) \<and>
   (\<exists>out. process_packet example_env example_server (discover ''aa:bb:cc:00:00:01'' 7)
       = Inr (leased_server, out) \<and> leased_server \<noteq> example_server \<and>
     message_type (discover ''aa:bb:cc:00:00:01'' 7) = Some (IntV 1))"
proof -
  have a: "\<exists>out. handle_dhcp_request example_env leased_server
             (request ''aa:bb:cc:00:00:01'' 7) = Inr (leased_server, out) \<and> out \<noteq> []"
    by (simp add: handle_dhcp_request_def build_and_send_def is_valid_ip_def Let_def
          example_env_def example_server_def leased_server_def request_def)
  have b: "\<exists>out. process_packet example_env example_server
             (discover ''aa:bb:cc:00:00:01'' 7) = Inr (leased_server, out)"
    by (simp add: process_packet_def handle_dhcp_discover_def build_and_send_def Let_def
          is_valid_ip_def example_env_def example_server_def leased_server_def discover_def)
  have c: "leased_server \<noteq> example_server"
    by (simp add: leased_server_def example_server_def)
  from a b c
    request_handler_preserves_state
      [of example_env example_server "discover ''aa:bb:cc:00:00:01'' 7"]
  show ?thesis by blast
qed

lemma valid_dns_filter:
  "valid_dns env ips = Inr vdns \<Longrightarrow> vdns = filter (\<lambda>ip. is_valid_ip env ip = Inr True) ips"
  by (induction ips arbitrary: vdns) (auto split: sum.splits if_splits)

lemma first_of_filter:
  "(case filter P xs of [] \<Rightarrow> d | x # _ \<Rightarrow> x) = (case find P xs of None \<Rightarrow> d | Some x \<Rightarrow> x)"
  by (induction xs) auto

lemma reply_frame_update:
  "reply_frame (self\<lparr>available_ips := a, allocated_ips := b\<rparr>) = reply_frame self"
  by (simp add: reply_frame_def name_server_of_def fun_eq_iff split: list.splits)

lemma bootp_yiaddr_reply_frame: "bootp_yiaddr (reply_frame self kind hw xid ip ch vdns) = ip"
  by (simp add: reply_frame_def)

lemma process_packet_frames:
  assumes "process_packet env self p = Inr (self', out)" and "f \<in> set out"
  shows "\<exists>mac xid vdns hw ch kind.
           Ether_src p = Some mac \<and> BOOTP_xid p = Some xid \<and>
           valid_dns env (dns_servers self) = Inr vdns \<and>
           get_if_hwaddr env (interface self) = Inr hw \<and>
           mac2str env mac = Inr ch \<and>
           allocated_ips self' mac = Some (bootp_yiaddr f) \<and>
           ((message_type p = Some (IntV 1) \<and> kind = ''offer'' \<and> available_ips self = bootp_yiaddr f # available_ips self') \<or>
            (message_type p = Some (IntV 3) \<and> kind = ''ack'' \<and> self' = self)) \<and>
           out = [f] \<and>
           f = reply_frame self kind hw xid (bootp_yiaddr f) ch vdns"
  using assms
  by (auto simp: process_packet_def handle_dhcp_discover_def handle_dhcp_request_def message_type_def Let_def
         reply_frame_update bootp_yiaddr_reply_frame
         split: option.splits sum.splits if_splits list.splits dest!: build_and_send_frame)

text \<open>
  C7. Every frame that a dispatch transmits, Offer or Ack, goes to the Ethernet broadcast
  address from the interface's own hardware address, and to 255.255.255.255 from the server
  address, from UDP port 67 to port 68; it is a BOOTP reply (op 2) that echoes the
  transaction id of the inbound frame, carries the address now recorded for the client, the
  server address and the client hardware address as \<^verbatim>\<open>mac2str\<close> converts it; and its DHCP
  options are, in this order, message-type, server_id, subnet_mask, router, name_server,
  lease_time and the end marker.
\<close>

theorem reply_frame_layout:
  assumes "process_packet env self p = Inr (self', out)" and "f \<in> set out"
  shows "eth_dst f = ''ff:ff:ff:ff:ff:ff'' \<and> get_if_hwaddr env (interface self) = Inr (eth_src f) \<and>
         ip_dst f = ''255.255.255.255'' \<and> ip_src f = server_ip self \<and>
         udp_sport f = 67 \<and> udp_dport f = 68 \<and>
         bootp_op f = 2 \<and> BOOTP_xid p = Some (bootp_xid f) \<and>
         (\<exists>mac. Ether_src p = Some mac \<and> mac2str env mac = Inr (bootp_chaddr f) \<and>
                allocated_ips self' mac = Some (bootp_yiaddr f)) \<and>
         bootp_siaddr f = server_ip self \<and>
         (\<exists>ns. dhcp_options f =
            [ Opt ''message-type''
                (StrV (if message_type p = Some (IntV 1) then ''offer'' else ''ack'')),
              Opt ''server_id'' (StrV (server_ip self)),
              Opt ''subnet_mask'' (StrV (subnet_mask self)),
              Opt ''router'' (StrV (gateway self)),
              Opt ''name_server'' (StrV ns),
              Opt ''lease_time'' (IntV (lease_time self)),
              Marker ''end'' ])"
proof -
  from process_packet_frames [OF assms] obtain mac xid vdns hw ch kind where
    h: "Ether_src p = Some mac" "BOOTP_xid p = Some xid"
       "get_if_hwaddr env (interface self) = Inr hw" "mac2str env mac = Inr ch"
       "allocated_ips self' mac = Some (bootp_yiaddr f)"
       "(message_type p = Some (IntV 1) \<and> kind = ''offer'') \<or> (message_type p = Some (IntV 3) \<and> kind = ''ack'')"
       "f = reply_frame self kind hw xid (bootp_yiaddr f) ch vdns"
    by blast
  have f: "eth_dst f = ''ff:ff:ff:ff:ff:ff''" "eth_src f = hw" "ip_dst f = ''255.255.255.255''"
    "ip_src f = server_ip self" "udp_sport f = 67" "udp_dport f = 68" "bootp_op f = 2"
    "bootp_xid f = xid" "bootp_chaddr f = ch" "bootp_siaddr f = server_ip self"
    "dhcp_options f =  [ Opt ''message-type'' (StrV kind),
              Opt ''server_id'' (StrV (server_ip self)),
              Opt ''subnet_mask'' (StrV (subnet_mask self)),
              Opt ''router'' (StrV (gateway self)),
              Opt ''name_server'' (StrV (name_server_of self vdns)),
              Opt ''lease_time'' (IntV (lease_time self)),
              Marker ''end'' ]"
    by (subst h(7), simp add: reply_frame_def)+
  have k: "kind = (if message_type p = Some (IntV 1) then ''offer'' else ''ack'')"
    using h(6) by auto
  show ?thesis using h(1-5) f k by simp
qed

theorem reply_frame_layout_witness:
  "process_packet example_env example_server (discover ''aa:bb:cc:00:00:01'' 7)
     = Inr (leased_server, [example_offer]) \<and>
   eth_dst example_offer = ''ff:ff:ff:ff:ff:ff'' \<and>
   get_if_hwaddr example_env ''eth0'' = Inr (eth_src example_offer) \<and>
   ip_dst example_offer = ''255.255.255.255'' \<and> ip_src example_offer = ''192.168.50.1'' \<and>
   udp_sport example_offer = 67 \<and> udp_dport example_offer = 68 \<and>
   bootp_op example_offer = 2 \<and> bootp_xid example_offer = 7 \<and>
   bootp_siaddr example_offer = ''192.168.50.1''"
proof -
  have h1: "process_packet example_env example_server (discover ''aa:bb:cc:00:00:01'' 7)
              = Inr (leased_server, [example_offer])"
    by (simp add: process_packet_def handle_dhcp_discover_def build_and_send_def Let_def
          is_valid_ip_def example_env_def example_server_def leased_server_def discover_def
          example_offer_def reply_frame_def name_server_of_def)
  have h2: "example_offer \<in> set [example_offer]" by simp
  from reply_frame_layout [OF h1 h2] h1 show ?thesis
    by (simp add: example_server_def discover_def)
qed

text \<open>
  C3. In every frame that a dispatch transmits, Offer or Ack, the name_server option is the
  first entry of the configured DNS list that \<^verbatim>\<open>is_valid_ip\<close> accepts, and the gateway
  address when it accepts none; later entries are never used.
\<close>

theorem name_server_first_valid:
  assumes "process_packet env self p = Inr (self', out)" and "f \<in> set out"
  shows "option_value ''name_server'' (dhcp_options f) =
           Some (StrV (case find (\<lambda>ip. is_valid_ip env ip = Inr True) (dns_servers self) of
                         Some d \<Rightarrow> d | None \<Rightarrow> gateway self))"
proof -
  from process_packet_frames [OF assms] obtain kind hw xid ch vdns where
    v: "valid_dns env (dns_servers self) = Inr vdns" and
    f: "f = reply_frame self kind hw xid (bootp_yiaddr f) ch vdns"
    by blast
  have "option_value ''name_server'' (dhcp_options f) = Some (StrV (name_server_of self vdns))"
    by (subst f) (simp add: reply_frame_def)
  also have "name_server_of self vdns = (case find (\<lambda>ip. is_valid_ip env ip = Inr True) (dns_servers self) of
                         Some d \<Rightarrow> d | None \<Rightarrow> gateway self)"
    using valid_dns_filter [OF v] by (simp add: name_server_of_def first_of_filter)
  finally show ?thesis .
qed

theorem name_server_first_valid_witness:
  "process_packet example_env example_server (discover ''aa:bb:cc:00:00:01'' 7)
     = Inr (leased_server, [example_offer]) \<and>
   dns_servers example_server = [''not-an-ip'', ''8.8.8.8'', ''1.1.1.1''] \<and>
   option_value ''name_server'' (dhcp_options example_offer) = Some (StrV ''8.8.8.8'')"
proof -
  have h1: "process_packet example_env example_server (discover ''aa:bb:cc:00:00:01'' 7)
              = Inr (leased_server, [example_offer])"
    by (simp add: process_packet_def handle_dhcp_discover_def build_and_send_def Let_def
          is_valid_ip_def example_env_def example_server_def leased_server_def discover_def
          example_offer_def reply_frame_def name_server_of_def)
  have h2: "example_offer \<in> set [example_offer]" by simp
  from name_server_first_valid [OF h1 h2] h1 show ?thesis
    by (simp add: example_server_def example_env_def is_valid_ip_def)
qed

section \<open>Sessions of Discovers\<close>

lemma is_offer_reply_frame [simp]: "is_offer (reply_frame self kind hw xid ip ch vdns) = (kind = ''offer'')"
  by (simp add: is_offer_def reply_frame_def)

lemma is_ack_reply_frame [simp]: "is_ack (reply_frame self kind hw xid ip ch vdns) = (kind = ''ack'')"
  by (simp add: is_ack_def reply_frame_def)

lemma process_packet_cases:
  assumes "process_packet env self p = Inr (self', out)"
  shows "(self' = self \<and> out = []) \<or>
         (\<exists>f. self' = self \<and> out = [f] \<and> is_ack f \<and> \<not> is_offer f \<and> message_type p = Some (IntV 3)) \<or>
         (\<exists>f mac a rest. available_ips self = a # rest \<and>
            self' = self\<lparr>available_ips := rest, allocated_ips := (allocated_ips self)(mac \<mapsto> a)\<rparr> \<and>
            out = [f] \<and> is_offer f \<and> bootp_yiaddr f = a \<and> Ether_src p = Some mac \<and>
            message_type p = Some (IntV 1))"
  using assms
  by (auto simp: process_packet_def handle_dhcp_discover_def handle_dhcp_request_def message_type_def Let_def
         reply_frame_update bootp_yiaddr_reply_frame
         split: option.splits sum.splits if_splits list.splits dest!: build_and_send_frame)

lemma valid_dns_total:
  "\<forall>ip \<in> set ips. \<exists>b. is_valid_ip env ip = Inr b \<Longrightarrow> \<exists>v. valid_dns env ips = Inr v"
  by (induction ips) auto

lemma build_and_send_total:
  assumes "calls_succeed env self ps" "p \<in> set ps" "Ether_src p = Some mac"
  shows "build_and_send env self kind mac xid ip =
           Inr (reply_frame self kind (projr (get_if_hwaddr env (interface self))) xid ip
                  (projr (mac2str env mac)) (projr (valid_dns env (dns_servers self))))"
proof -
  from assms obtain hw ch where h: "get_if_hwaddr env (interface self) = Inr hw" "mac2str env mac = Inr ch"
    "\<forall>f. sendp env f (interface self) = None"
    unfolding calls_succeed_def by blast
  from assms(1) obtain v where v: "valid_dns env (dns_servers self) = Inr v"
    unfolding calls_succeed_def using valid_dns_total by blast
  show ?thesis by (simp add: build_and_send_def h v)
qed

lemma calls_succeed_update:
  "calls_succeed env (self\<lparr>available_ips := a, allocated_ips := b\<rparr>) ps = calls_succeed env self ps"
  by (simp add: calls_succeed_def)

lemma discover_step:
  assumes "calls_succeed env self ps" "p \<in> set ps" "is_discover p"
  shows "\<exists>self' out. process_packet env self p = Inr (self', out) \<and>
           available_ips self' = tl (available_ips self) \<and>
           map bootp_yiaddr out = take 1 (available_ips self) \<and> list_all is_offer out \<and>
           calls_succeed env self' ps"
proof -
  from assms(3) obtain opts mac xid where
    p: "DHCP_options p = Some opts" "first_option_value opts = Inr (IntV 1)"
       "Ether_src p = Some mac" "BOOTP_xid p = Some xid"
    by (auto simp: is_discover_def message_type_def split: option.splits sum.splits)
  show ?thesis
  proof (cases "available_ips self")
    case Nil
    then show ?thesis using p assms(1)
      by (simp add: process_packet_def handle_dhcp_discover_def)
  next
    case (Cons a rest)
    let ?s = "self\<lparr>available_ips := rest, allocated_ips := (allocated_ips self)(mac \<mapsto> a)\<rparr>"
    have c: "calls_succeed env ?s ps" using assms(1) by (simp add: calls_succeed_update)
    show ?thesis using p Cons c build_and_send_total [OF c assms(2) p(3)]
      by (simp add: process_packet_def handle_dhcp_discover_def Let_def bootp_yiaddr_reply_frame)
  qed
qed

lemma discover_session:
  assumes "calls_succeed env self ps" "set qs \<subseteq> set ps" "list_all is_discover qs"
  shows "\<exists>self' out. sniff env self (map Captured qs) = Inr (Waiting self' out) \<and>
           available_ips self' = drop (length qs) (available_ips self) \<and>
           map bootp_yiaddr out = take (length qs) (available_ips self) \<and> list_all is_offer out"
  using assms
proof (induction qs arbitrary: self)
  case Nil
  then show ?case by simp
next
  case (Cons q qs)
  from Cons.prems have q: "q \<in> set ps" "is_discover q" by auto
  from discover_step [OF Cons.prems(1) q] obtain s1 o1 where
    1: "process_packet env self q = Inr (s1, o1)" "available_ips s1 = tl (available_ips self)"
       "map bootp_yiaddr o1 = take 1 (available_ips self)" "list_all is_offer o1"
       "calls_succeed env s1 ps"
    by blast
  from Cons.IH [OF 1(5)] Cons.prems obtain s2 o2 where
    2: "sniff env s1 (map Captured qs) = Inr (Waiting s2 o2)"
       "available_ips s2 = drop (length qs) (available_ips s1)"
       "map bootp_yiaddr o2 = take (length qs) (available_ips s1)" "list_all is_offer o2"
    by auto
  have "sniff env self (map Captured (q # qs)) = Inr (Waiting s2 (o1 @ o2))"
    by (simp add: 1 2)
  moreover have "available_ips s2 = drop (length (q # qs)) (available_ips self)"
    by (simp add: 1 2 drop_Suc)
  moreover have "map bootp_yiaddr (o1 @ o2) = take (length (q # qs)) (available_ips self)"
    by (cases "available_ips self") (simp_all add: 1 2)
  moreover have "list_all is_offer (o1 @ o2)" using 1 2 by simp
  ultimately show ?case by blast
qed

lemma exhausted_discover:
  "is_discover p \<Longrightarrow> available_ips self = [] \<Longrightarrow>
     handle_dhcp_discover env self p = Inr (self, []) \<and> process_packet env self p = Inr (self, [])"
  by (auto simp: is_discover_def message_type_def process_packet_def handle_dhcp_discover_def
      split: option.splits sum.splits)


lemma init_IPv4:
  assumes "init env i pool m g d l = Inr s0" "IPv4Network_init pool = Some n"
  shows "available_ips s0 = map string_from_ip_int (hosts n)" "allocated_ips s0 = Map.empty"
    "interface s0 = i" "gateway s0 = g" "server_ip s0 = g" "dns_servers s0 = d"
  using assms by (auto simp: init_def ip_network_hosts_def split: sum.splits option.splits)

text \<open>The scenario evaluated: the pool of \<^verbatim>\<open>192.168.50.0/29\<close> is its six inner addresses.\<close>

lemma n29: "IPv4Network_init ''192.168.50.0/29'' =
   Some \<lparr>network_address = 3232248320, netmask = 4294967288, prefixlen = 29, addr = 3232248320\<rparr>"
  by code_simp

lemma h29: "ip_network_hosts example_env ''192.168.50.0/29'' =
  Inr [''192.168.50.1'', ''192.168.50.2'', ''192.168.50.3'', ''192.168.50.4'', ''192.168.50.5'', ''192.168.50.6'']"
  by code_simp

lemma i29: "init example_env ''eth0'' ''192.168.50.0/29'' ''255.255.255.248'' ''192.168.50.1''
     [''not-an-ip'', ''8.8.8.8'', ''1.1.1.1''] 300 = Inr example_server"
  by (simp add: init_def h29 example_server_def)

lemma hl29: "length (hosts \<lparr>network_address = 3232248320, netmask = 4294967288, prefixlen = 29, addr = 3232248320\<rparr>) = 6"
  by code_simp

text \<open>
  C1. Let the pool come from an IPv4 CIDR whose \<^verbatim>\<open>hosts()\<close> are H addresses, and let a
  session consist of Discovers, no library call failing. Then the dispatch loop takes them
  all without an error and transmits exactly min(number of Discovers, H) frames, all
  Offers: the k-th Discover, for k up to H, is offered the k-th address of the pool, which
  leaves the pool; once H Discovers have been taken the pool is empty and any further
  Discover, whatever the libraries do, returns with no frame and the responder unchanged.
\<close>

theorem discovers_exhaust_pool:
  assumes "init env i pool m g d l = Inr s0" and "IPv4Network_init pool = Some n"
    and "list_all is_discover ps" and "calls_succeed env s0 ps"
  shows "\<exists>s out. sniff env s0 (map Captured ps) = Inr (Waiting s out) \<and>
           length out = min (length ps) (length (hosts n)) \<and>
           list_all is_offer out \<and>
           map bootp_yiaddr out = take (length ps) (map string_from_ip_int (hosts n)) \<and>
           available_ips s = drop (length ps) (map string_from_ip_int (hosts n)) \<and>
           (\<forall>env' p. length (hosts n) \<le> length ps \<and> is_discover p \<longrightarrow>
              handle_dhcp_discover env' s p = Inr (s, []) \<and>
              process_packet env' s p = Inr (s, []))"
proof -
  have a: "available_ips s0 = map string_from_ip_int (hosts n)"
    using assms(1,2) by (rule init_IPv4)
  from discover_session [OF assms(4) subset_refl assms(3)] obtain s out where
    r: "sniff env s0 (map Captured ps) = Inr (Waiting s out)"
       "available_ips s = drop (length ps) (available_ips s0)"
       "map bootp_yiaddr out = take (length ps) (available_ips s0)"
       "list_all is_offer out"
    by blast
  have "length (map bootp_yiaddr out) = min (length ps) (length (hosts n))"
    by (simp add: r(3) a min.commute)
  then have l: "length out = min (length ps) (length (hosts n))" by simp
  have e: "length (hosts n) \<le> length ps \<Longrightarrow> available_ips s = []"
    by (simp add: r(2) a)
  show ?thesis
    using r l e exhausted_discover unfolding a by blast
qed

theorem discovers_exhaust_pool_witness:
  "\<exists>s out. sniff example_env example_server
       (map Captured (replicate 7 (discover ''aa:bb:cc:00:00:01'' 1))) = Inr (Waiting s out) \<and>
     length out = 6 \<and> available_ips s = [] \<and>
     process_packet link_down_env s (discover ''aa:bb:cc:00:00:02'' 2) = Inr (s, [])"
proof -
  have d: "is_discover (discover mac x)" for mac x
    by (simp add: is_discover_def message_type_def discover_def)
  have h3: "list_all is_discover (replicate 7 (discover ''aa:bb:cc:00:00:01'' 1))"
    by (simp add: list_all_iff d)
  have h4: "calls_succeed example_env example_server (replicate 7 (discover ''aa:bb:cc:00:00:01'' 1))"
    by (auto simp: calls_succeed_def example_env_def example_server_def is_valid_ip_def discover_def)
  from discovers_exhaust_pool [OF i29 n29 h3 h4] d show ?thesis
    by (simp add: hl29) blast
qed

section \<open>The allocation table over a session\<close>

lemma sniff_Waiting_Cons:
  assumes "sniff env s (e # es) = Inr (Waiting s' out)"
  obtains p s1 o1 o2 where "e = Captured p" "process_packet env s p = Inr (s1, o1)"
    "sniff env s1 es = Inr (Waiting s' o2)" "out = o1 @ o2"
  using assms
  by (cases e) (auto split: sum.splits prod.splits capture.splits if_splits)

lemma pool_consumed:
  "sniff env s es = Inr (Waiting s' out) \<Longrightarrow>
     available_ips s = map bootp_yiaddr (filter is_offer out) @ available_ips s'"
proof (induction es arbitrary: s out)
  case Nil
  then show ?case by simp
next
  case (Cons e es)
  from Cons.prems obtain p s1 o1 o2 where
    h: "e = Captured p" "process_packet env s p = Inr (s1, o1)"
       "sniff env s1 es = Inr (Waiting s' o2)" "out = o1 @ o2"
    by (rule sniff_Waiting_Cons)
  from process_packet_cases [OF h(2)]
  have "available_ips s = map bootp_yiaddr (filter is_offer o1) @ available_ips s1"
    by auto
  with Cons.IH [OF h(3)] h(4) show ?case by simp
qed

lemma table_step:
  assumes "process_packet env s p = Inr (s', out)" "allocated_ips s mac = Some ip"
  shows "allocated_ips s' mac = Some ip \<or>
         (message_type p = Some (IntV 1) \<and> Ether_src p = Some mac \<and>
          (\<exists>rest. available_ips s = the (allocated_ips s' mac) # rest) \<and> allocated_ips s' mac \<noteq> None)"
  using process_packet_cases [OF assms(1)] assms(2) by (auto split: if_splits)

lemma table_session:
  assumes "sniff env s es = Inr (Waiting s' out)" "allocated_ips s mac = Some ip"
  shows "allocated_ips s' mac = Some ip \<or>
         ((\<exists>p. Captured p \<in> set es \<and> message_type p = Some (IntV 1) \<and> Ether_src p = Some mac) \<and>
          (\<exists>a \<in> set (available_ips s). allocated_ips s' mac = Some a))"
  using assms
proof (induction es arbitrary: s out ip)
  case Nil
  then show ?case by simp
next
  case (Cons e es)
  from Cons.prems(1) obtain p s1 o1 o2 where
    h: "e = Captured p" "process_packet env s p = Inr (s1, o1)"
       "sniff env s1 es = Inr (Waiting s' o2)" "out = o1 @ o2"
    by (rule sniff_Waiting_Cons)
  have sub: "set (available_ips s1) \<subseteq> set (available_ips s)"
    using process_packet_cases [OF h(2)] by auto
  from table_step [OF h(2) Cons.prems(2)] show ?case
  proof
    assume a: "allocated_ips s1 mac = Some ip"
    from Cons.IH [OF h(3) a] sub show ?thesis by auto
  next
    assume b: "message_type p = Some (IntV 1) \<and> Ether_src p = Some mac \<and>
          (\<exists>rest. available_ips s = the (allocated_ips s1 mac) # rest) \<and> allocated_ips s1 mac \<noteq> None"
    then obtain a where a: "allocated_ips s1 mac = Some a" "a \<in> set (available_ips s)" by auto
    from Cons.IH [OF h(3) a(1)] sub a(2) b h(1) show ?thesis by auto
  qed
qed

lemma dom_step:
  "process_packet env s p = Inr (s', out) \<Longrightarrow> dom (allocated_ips s) \<subseteq> dom (allocated_ips s')"
  using process_packet_cases [of env s p s' out] by auto

lemma dom_session:
  "sniff env s es = Inr (Waiting s' out) \<Longrightarrow> dom (allocated_ips s) \<subseteq> dom (allocated_ips s')"
proof (induction es arbitrary: s out)
  case Nil
  then show ?case by simp
next
  case (Cons e es)
  from Cons.prems obtain p s1 o1 o2 where
    h: "e = Captured p" "process_packet env s p = Inr (s1, o1)"
       "sniff env s1 es = Inr (Waiting s' o2)" "out = o1 @ o2"
    by (rule sniff_Waiting_Cons)
  from dom_step [OF h(2)] Cons.IH [OF h(3)] show ?case by blast
qed

lemma bootp_xid_reply_frame: "bootp_xid (reply_frame self kind hw xid ip ch vdns) = xid"
  by (simp add: reply_frame_def)

lemma request_step:
  assumes "allocated_ips s mac = Some ip" "is_request r" "Ether_src r = Some mac"
    "BOOTP_xid r = Some x" "calls_succeed env s [r]"
  shows "\<exists>a. process_packet env s r = Inr (s, [a]) \<and> is_ack a \<and> bootp_yiaddr a = ip \<and> bootp_xid a = x"
proof -
  from assms(2) obtain opts where
    p: "DHCP_options r = Some opts" "first_option_value opts = Inr (IntV 3)"
    by (auto simp: is_request_def message_type_def split: option.splits sum.splits)
  have "r \<in> set [r]" by simp
  from build_and_send_total [OF assms(5) this assms(3)] p assms(1,3,4) show ?thesis
    by (simp add: process_packet_def handle_dhcp_request_def bootp_yiaddr_reply_frame bootp_xid_reply_frame)
qed

lemmas run_example =
  process_packet_def handle_dhcp_discover_def handle_dhcp_request_def build_and_send_def
  Let_def is_valid_ip_def example_env_def example_server_def leased_server_def
  twice_leased_server_def discover_def request_def example_reply_def reply_frame_def
  name_server_of_def

lemma table_after_dispatch:
  assumes "process_packet env t p = Inr (t', out)"
  shows "message_type p = Some (IntV 1) \<and> available_ips t \<noteq> [] \<Longrightarrow>
           \<exists>mac. Ether_src p = Some mac \<and>
             allocated_ips t' = (allocated_ips t)(mac \<mapsto> hd (available_ips t))"
    and "\<not> (message_type p = Some (IntV 1) \<and> available_ips t \<noteq> []) \<Longrightarrow>
           allocated_ips t' = allocated_ips t"
  using assms
  by (auto simp: process_packet_def handle_dhcp_discover_def handle_dhcp_request_def
        message_type_def Let_def
      split: option.splits sum.splits if_splits list.splits)

text \<open>
  C8, as the code has it. Over any session the key set of the allocation table only grows,
  and the entry of a hardware address stays what it was unless the session holds a further
  Discover from that same address, taken while the pool was not empty: then the entry is
  an address popped from the pool since. Requests, and the Discovers of other clients,
  never change it. And every dispatch of a Discover that finds the pool not empty and
  returns does write the table: the entry of the sender becomes the head of the pool,
  whether or not the sender had an entry; every other dispatch leaves the table as it was.
\<close>

theorem table_entry_changes_only_by_own_discover:
  assumes "sniff env s es = Inr (Waiting s' out)"
  shows "dom (allocated_ips s) \<subseteq> dom (allocated_ips s') \<and>
         (\<forall>mac ip. allocated_ips s mac = Some ip \<longrightarrow>
            allocated_ips s' mac = Some ip \<or>
            ((\<exists>p. Captured p \<in> set es \<and> message_type p = Some (IntV 1) \<and> Ether_src p = Some mac) \<and>
             (\<exists>a \<in> set (available_ips s). allocated_ips s' mac = Some a))) \<and>
         (\<forall>env' t p t' out'. process_packet env' t p = Inr (t', out') \<longrightarrow>
            (message_type p = Some (IntV 1) \<and> available_ips t \<noteq> [] \<longrightarrow>
               (\<exists>mac. Ether_src p = Some mac \<and>
                  allocated_ips t' = (allocated_ips t)(mac \<mapsto> hd (available_ips t)))) \<and>
            (\<not> (message_type p = Some (IntV 1) \<and> available_ips t \<noteq> []) \<longrightarrow>
               allocated_ips t' = allocated_ips t))"
  using dom_session [OF assms] table_session [OF assms] table_after_dispatch by blast

theorem table_entry_changes_only_by_own_discover_witness:
  "sniff example_env leased_server [Captured (discover ''aa:bb:cc:00:00:01'' 8)]
     = Inr (Waiting twice_leased_server [example_reply ''offer'' 8 ''192.168.50.2'']) \<and>
   process_packet example_env leased_server (discover ''aa:bb:cc:00:00:01'' 8)
     = Inr (twice_leased_server, [example_reply ''offer'' 8 ''192.168.50.2'']) \<and>
   dom (allocated_ips leased_server) \<subseteq> dom (allocated_ips twice_leased_server) \<and>
   allocated_ips leased_server ''aa:bb:cc:00:00:01'' = Some ''192.168.50.1'' \<and>
   message_type (discover ''aa:bb:cc:00:00:01'' 8) = Some (IntV 1) \<and>
   available_ips leased_server \<noteq> [] \<and>
   allocated_ips twice_leased_server
     = (allocated_ips leased_server)(''aa:bb:cc:00:00:01'' \<mapsto> hd (available_ips leased_server)) \<and>
   hd (available_ips leased_server) = ''192.168.50.2''"
proof -
  have h: "sniff example_env leased_server [Captured (discover ''aa:bb:cc:00:00:01'' 8)]
     = Inr (Waiting twice_leased_server [example_reply ''offer'' 8 ''192.168.50.2''])"
    by (simp add: run_example)
  have q: "process_packet example_env leased_server (discover ''aa:bb:cc:00:00:01'' 8)
     = Inr (twice_leased_server, [example_reply ''offer'' 8 ''192.168.50.2''])"
    by (simp add: run_example)
  have a: "allocated_ips leased_server ''aa:bb:cc:00:00:01'' = Some ''192.168.50.1''"
    by (simp add: leased_server_def)
  have m: "message_type (discover ''aa:bb:cc:00:00:01'' 8) = Some (IntV 1)"
    by (simp add: message_type_def discover_def)
  have n: "available_ips leased_server \<noteq> []"
    and k: "hd (available_ips leased_server) = ''192.168.50.2''"
    by (simp_all add: leased_server_def)
  have e: "Ether_src (discover ''aa:bb:cc:00:00:01'' 8) = Some ''aa:bb:cc:00:00:01''"
    by (simp add: discover_def)
  note r = table_entry_changes_only_by_own_discover [OF h]
  from r have d: "dom (allocated_ips leased_server) \<subseteq> dom (allocated_ips twice_leased_server)"
    by blast
  from r q m n have "\<exists>mac. Ether_src (discover ''aa:bb:cc:00:00:01'' 8) = Some mac \<and>
      allocated_ips twice_leased_server
        = (allocated_ips leased_server)(mac \<mapsto> hd (available_ips leased_server))"
    by blast
  with e have w: "allocated_ips twice_leased_server
     = (allocated_ips leased_server)(''aa:bb:cc:00:00:01'' \<mapsto> hd (available_ips leased_server))"
    by auto
  from h q d a m n w k show ?thesis by blast
qed

text \<open>
  C8 as stated fails: a client that holds 192.168.50.1 and sends a second Discover has its
  entry overwritten with 192.168.50.2.
\<close>

theorem table_entry_overwritten_counterexample:
  "allocated_ips leased_server ''aa:bb:cc:00:00:01'' = Some ''192.168.50.1'' \<and>
   process_packet example_env leased_server (discover ''aa:bb:cc:00:00:01'' 8)
     = Inr (twice_leased_server, [example_reply ''offer'' 8 ''192.168.50.2'']) \<and>
   allocated_ips twice_leased_server ''aa:bb:cc:00:00:01'' = Some ''192.168.50.2''"
  by (simp add: run_example)

text \<open>
  C5, as the code has it. Let a Discover of a hardware address be answered by an Offer, and
  let the session go on without another Discover from that address. Then a Request from
  it, no library call failing, is answered by one Ack, which carries the address of that
  Offer and the transaction id of the Request itself; the responder is unchanged.
\<close>

theorem ack_after_offer:
  assumes "process_packet env s1 d = Inr (s2, [f])" and "is_offer f" and "Ether_src d = Some mac"
    and "sniff env s2 es = Inr (Waiting s3 out)"
    and "\<forall>p. Captured p \<in> set es \<longrightarrow> \<not> (message_type p = Some (IntV 1) \<and> Ether_src p = Some mac)"
    and "is_request r" and "Ether_src r = Some mac" and "BOOTP_xid r = Some x"
    and "calls_succeed env s3 [r]"
  shows "\<exists>a. process_packet env s3 r = Inr (s3, [a]) \<and> is_ack a \<and>
           bootp_yiaddr a = bootp_yiaddr f \<and> bootp_xid a = x"
proof -
  have "f \<in> set [f]" by simp
  from process_packet_frames [OF assms(1) this] assms(3)
  have t2: "allocated_ips s2 mac = Some (bootp_yiaddr f)" by auto
  from table_session [OF assms(4) t2] assms(5)
  have t3: "allocated_ips s3 mac = Some (bootp_yiaddr f)" by blast
  from request_step [OF t3 assms(6,7,8,9)] show ?thesis .
qed

theorem ack_after_offer_witness:
  "\<exists>a. process_packet example_env leased_server (request ''aa:bb:cc:00:00:01'' 2)
          = Inr (leased_server, [a]) \<and>
        is_ack a \<and> bootp_yiaddr a = ''192.168.50.1'' \<and> bootp_xid a = 2"
proof -
  have h1: "process_packet example_env example_server (discover ''aa:bb:cc:00:00:01'' 1)
              = Inr (leased_server, [example_reply ''offer'' 1 ''192.168.50.1''])"
    by (simp add: run_example)
  have h2: "is_offer (example_reply ''offer'' 1 ''192.168.50.1'')"
    by (simp add: example_reply_def)
  have h3: "Ether_src (discover ''aa:bb:cc:00:00:01'' 1) = Some ''aa:bb:cc:00:00:01''"
    by (simp add: discover_def)
  have h4: "sniff example_env leased_server [Captured (request ''aa:bb:cc:00:00:02'' 5)]
              = Inr (Waiting leased_server [])"
    by (simp add: run_example)
  have h5: "\<forall>p. Captured p \<in> set [Captured (request ''aa:bb:cc:00:00:02'' 5)] \<longrightarrow>
              \<not> (message_type p = Some (IntV 1) \<and> Ether_src p = Some ''aa:bb:cc:00:00:01'')"
    by (simp add: request_def)
  have h6: "is_request (request ''aa:bb:cc:00:00:01'' 2)"
    by (simp add: is_request_def message_type_def request_def)
  have h7: "Ether_src (request ''aa:bb:cc:00:00:01'' 2) = Some ''aa:bb:cc:00:00:01''"
    and h8: "BOOTP_xid (request ''aa:bb:cc:00:00:01'' 2) = Some 2"
    by (simp_all add: request_def)
  have h9: "calls_succeed example_env leased_server [request ''aa:bb:cc:00:00:01'' 2]"
    by (auto simp: calls_succeed_def example_env_def example_server_def leased_server_def
          is_valid_ip_def request_def)
  from ack_after_offer [OF h1 h2 h3 h4 h5 h6 h7 h8 h9] show ?thesis
    by (simp add: example_reply_def bootp_yiaddr_reply_frame)
qed

text \<open>
  C5 as stated fails. The Ack echoes the transaction id of the Request (2), not that of the
  Discover (1), which is stored nowhere; and after two Discovers of one client the Ack
  carries the address of the second Offer, not of the first.
\<close>

theorem ack_xid_counterexample:
  "sniff example_env example_server
     [Captured (discover ''aa:bb:cc:00:00:01'' 1), Captured (request ''aa:bb:cc:00:00:01'' 2)]
     = Inr (Waiting leased_server
         [example_reply ''offer'' 1 ''192.168.50.1'', example_reply ''ack'' 2 ''192.168.50.1'']) \<and>
   bootp_xid (example_reply ''ack'' 2 ''192.168.50.1'') \<noteq> 1 \<and>
   sniff example_env example_server
     [Captured (discover ''aa:bb:cc:00:00:01'' 1), Captured (discover ''aa:bb:cc:00:00:01'' 1),
      Captured (request ''aa:bb:cc:00:00:01'' 1)]
     = Inr (Waiting twice_leased_server
         [example_reply ''offer'' 1 ''192.168.50.1'', example_reply ''offer'' 1 ''192.168.50.2'',
          example_reply ''ack'' 1 ''192.168.50.2'']) \<and>
   bootp_yiaddr (example_reply ''ack'' 1 ''192.168.50.2'')
     \<noteq> bootp_yiaddr (example_reply ''offer'' 1 ''192.168.50.1'')"
  by (simp add: run_example)

section \<open>Errors at process entry\<close>



lemma lc: "load_config example_env ''config.ini'' = Inr \<lparr> config_interface = ''eth0'', config_ip_pool = ''192.168.50.0/29'',
   config_subnet_mask = ''255.255.255.248'', config_gateway = ''192.168.50.1'',
   config_dns_servers = [''not-an-ip'', ''8.8.8.8'', ''1.1.1.1''], config_lease_time = 300\<rparr>"
  by code_simp





lemma example_config:
  "load_config example_env ''config.ini'' = Inr c \<Longrightarrow>
     init example_env (config_interface c) (config_ip_pool c) (config_subnet_mask c)
       (config_gateway c) (config_dns_servers c) (config_lease_time c) = Inr example_server"
  using lc i29 by auto





section \<open>Addresses and their dotted-decimal strings\<close>

text \<open>\<^verbatim>\<open>str\<close> of an IPv4 address is parsed back to the address, so distinct addresses have distinct strings.\<close>

declare str_nat.simps [simp del]

lemma digit_char: "d < 10 \<Longrightarrow> (of_char (char_of (48 + d)) :: nat) = 48 + d"
  by (simp add: of_char_of [where ?'a = nat])

lemma str_nat_nonempty: "str_nat n \<noteq> []"
  by (subst str_nat.simps) simp

lemma str_nat_digits: "list_all is_decimal_digit (str_nat n)"
proof (induction n rule: str_nat.induct)
  case (1 n)
  show ?case
  proof (cases "n < 10")
    case True
    then show ?thesis by (subst str_nat.simps) (simp add: is_decimal_digit_def digit_char)
  next
    case False
    have "n mod 10 < 10" by simp
    then have "is_decimal_digit (char_of (48 + n mod 10))"
      unfolding is_decimal_digit_def by (simp add: digit_char)
    with False 1 show ?thesis by (subst str_nat.simps) simp
  qed
qed

lemma int_of_digits_snoc:
  "int_of_digits (s @ [c]) = 10 * int_of_digits s + (int (of_char c) - 48)"
  by (simp add: int_of_digits_def)

lemma int_of_digits_str_nat: "int_of_digits (str_nat n) = int n"
proof (induction n rule: str_nat.induct)
  case (1 n)
  show ?case
  proof (cases "n < 10")
    case True
    then show ?thesis by (subst str_nat.simps) (simp add: int_of_digits_def digit_char)
  next
    case False
    have d: "(of_char (char_of (48 + n mod 10)) :: nat) = 48 + n mod 10"
      by (rule digit_char) simp
    from False 1 have "int_of_digits (str_nat (n div 10)) = int (n div 10)" by simp
    moreover have "10 * int (n div 10) + int (n mod 10) = int n"
      using div_mult_mod_eq [of n 10] by linarith
    ultimately show ?thesis using False
      by (subst str_nat.simps) (simp add: int_of_digits_snoc d)
  qed
qed

lemma length_str_nat: "n < 1000 \<Longrightarrow> length (str_nat n) \<le> 3"
  by (subst str_nat.simps, simp, subst str_nat.simps, simp, subst str_nat.simps, simp)

lemma hd_str_nat: "0 < n \<Longrightarrow> hd (str_nat n) \<noteq> CHR ''0''"
proof (induction n rule: str_nat.induct)
  case (1 n)
  show ?case
  proof (cases "n < 10")
    case True
    have "(of_char (hd (str_nat n)) :: nat) = 48 + n"
      using True by (subst str_nat.simps) (simp add: digit_char)
    with 1(2) show ?thesis by auto
  next
    case False
    then have "0 < n div 10" by simp
    with 1 False have "hd (str_nat (n div 10)) \<noteq> CHR ''0''" by simp
    with False show ?thesis
      by (subst str_nat.simps) (simp add: str_nat_nonempty)
  qed
qed

lemma char_of_48: "char_of (48 :: nat) = CHR ''0''"
  by (rule injD [OF inj_of_char [where ?'a = nat]]) (simp add: of_char_of)

lemma str_nat_0: "str_nat 0 = ''0''"
  by (subst str_nat.simps) (simp add: char_of_48)

lemma parse_octet_str_int:
  assumes "0 \<le> b" "b \<le> 255"
  shows "parse_octet (str_int b) = Some b"
proof -
  have s: "str_int b = str_nat (nat b)" using assms by (simp add: str_int_def)
  have l: "length (str_nat (nat b)) \<le> 3" using assms by (intro length_str_nat) simp
  have z: "str_nat (nat b) = ''0'' \<or> hd (str_nat (nat b)) \<noteq> CHR ''0''"
    using hd_str_nat [of "nat b"] str_nat_0 by (cases "nat b = 0") auto
  show ?thesis
    using assms l z
    by (simp add: s parse_octet_def str_nat_nonempty isascii_isdigit_def str_nat_digits
        int_of_digits_str_nat Let_def)
qed

lemma dot_not_digit: "is_decimal_digit c \<Longrightarrow> c \<noteq> CHR ''.''"
  by (auto simp: is_decimal_digit_def)

lemma str_nat_no_dot: "CHR ''.'' \<notin> set (str_nat n)"
  using str_nat_digits [of n] dot_not_digit by (auto simp: list_all_iff)

lemma split_str_nonempty: "split_str c s \<noteq> []"
  by (induction s) (auto split: list.splits)

lemma split_str_none: "c \<notin> set w \<Longrightarrow> split_str c w = [w]"
  by (induction w) auto

lemma split_str_append: "c \<notin> set w \<Longrightarrow> split_str c (w @ c # rest) = w # split_str c rest"
  by (induction w) (auto split: list.splits simp: split_str_nonempty)

lemma split_join4:
  assumes "c \<notin> set w1" "c \<notin> set w2" "c \<notin> set w3" "c \<notin> set w4"
  shows "split_str c (join_str [c] [w1, w2, w3, w4]) = [w1, w2, w3, w4]"
  using assms by (simp add: split_str_append split_str_none)

lemma bytes_recompose:
  fixes a q1 q2 q3 r0 r1 r2 :: int
  assumes e1: "a = 256 * q1 + r0" and e2: "q1 = 256 * q2 + r1" and e3: "q2 = 256 * q3 + r2"
  shows "256 * (256 * (256 * q3 + r2) + r1) + r0 = a"
  by (simp add: e1 e2 e3)

lemma from_bytes_to_bytes4:
  assumes "0 \<le> a" "a < 2 ^ 32"
  shows "from_bytes (to_bytes4 a) = a"
proof -
  define q1 where "q1 = a div 256"
  define q2 where "q2 = q1 div 256"
  define q3 where "q3 = q2 div 256"
  have d8: "a div 256 = q1" by (simp add: q1_def)
  have d16: "a div 65536 = q2"
    using zdiv_zmult2_eq [of 256 a 256] by (simp add: q1_def q2_def)
  have d24: "a div 16777216 = q3"
    using zdiv_zmult2_eq [of 256 a 65536] d16 by (simp add: q3_def)
  have "a div 16777216 \<le> 4294967295 div 16777216"
    using assms by (intro zdiv_mono1) simp_all
  then have "q3 < 256" by (simp add: d24)
  moreover have "0 \<le> q3" using assms by (simp add: q3_def q2_def q1_def)
  ultimately have m3: "q3 mod 256 = q3" by simp
  define r0 where "r0 = a mod 256"
  define r1 where "r1 = q1 mod 256"
  define r2 where "r2 = q2 mod 256"
  have e1: "a = 256 * q1 + r0" by (simp add: q1_def r0_def)
  have e2: "q1 = 256 * q2 + r1" by (simp add: q2_def r1_def)
  have e3: "q2 = 256 * q3 + r2" by (simp add: q3_def r2_def)
  have "to_bytes4 a = [q3, r2, r1, r0]"
    by (simp add: to_bytes4_def d8 d16 d24 m3 r0_def r1_def r2_def)
  then have "from_bytes (to_bytes4 a) = 256 * (256 * (256 * q3 + r2) + r1) + r0"
    by (simp add: from_bytes_def)
  also have "\<dots> = a" using e1 e2 e3 by (rule bytes_recompose)
  finally show ?thesis .
qed

lemma mod256_range: "0 \<le> (x::int) mod 256 \<and> x mod 256 \<le> 255"
proof -
  have "0 \<le> x mod 256" by (rule pos_mod_sign) simp
  moreover have "x mod 256 < 256" by (rule pos_mod_bound) simp
  ultimately show ?thesis by simp
qed

lemma str_int_no_dot: "0 \<le> b \<Longrightarrow> CHR ''.'' \<notin> set (str_int b)"
  by (simp add: str_int_def str_nat_no_dot)

lemma ip_int_from_string_roundtrip:
  assumes "0 \<le> a" "a < 2 ^ 32"
  shows "ip_int_from_string (string_from_ip_int a) = Some a"
proof -
  define b3 where "b3 = a div 2 ^ 24 mod 256"
  define b2 where "b2 = a div 2 ^ 16 mod 256"
  define b1 where "b1 = a div 2 ^ 8 mod 256"
  define b0 where "b0 = a mod 256"
  have b: "to_bytes4 a = [b3, b2, b1, b0]"
    unfolding to_bytes4_def b3_def b2_def b1_def b0_def by (rule refl)
  have r: "0 \<le> b3 \<and> b3 \<le> 255" "0 \<le> b2 \<and> b2 \<le> 255" "0 \<le> b1 \<and> b1 \<le> 255" "0 \<le> b0 \<and> b0 \<le> 255"
    unfolding b3_def b2_def b1_def b0_def by (rule mod256_range)+
  have nd: "CHR ''.'' \<notin> set (str_int b3)" "CHR ''.'' \<notin> set (str_int b2)"
    "CHR ''.'' \<notin> set (str_int b1)" "CHR ''.'' \<notin> set (str_int b0)"
    using r by (simp_all add: str_int_no_dot)
  have sp: "split_str CHR ''.'' (string_from_ip_int a) = [str_int b3, str_int b2, str_int b1, str_int b0]"
    unfolding string_from_ip_int_def b using split_join4 [OF nd] by simp
  have "str_int b3 \<noteq> []" using r by (simp add: str_int_def str_nat_nonempty)
  then have ne: "string_from_ip_int a \<noteq> []"
    by (simp add: string_from_ip_int_def b)
  have fb: "from_bytes [b3, b2, b1, b0] = a"
    using from_bytes_to_bytes4 [OF assms] by (simp only: b)
  have po: "map parse_octet [str_int b3, str_int b2, str_int b1, str_int b0] = [Some b3, Some b2, Some b1, Some b0]"
    using r by (simp add: parse_octet_str_int)
  show ?thesis
    unfolding ip_int_from_string_def Let_def sp po using ne fb by simp
qed

lemma string_from_ip_int_inj:
  assumes "0 \<le> a" "a < 2 ^ 32" "0 \<le> b" "b < 2 ^ 32" "string_from_ip_int a = string_from_ip_int b"
  shows "a = b"
proof -
  have "Some a = ip_int_from_string (string_from_ip_int a)"
    using ip_int_from_string_roundtrip [OF assms(1,2)] by (rule sym)
  also have "\<dots> = ip_int_from_string (string_from_ip_int b)" by (simp only: assms(5))
  also have "\<dots> = Some b" by (rule ip_int_from_string_roundtrip [OF assms(3,4)])
  finally show ?thesis by simp
qed

section \<open>The block of an IPv4 network\<close>

lemma int_of_digits_nonneg: "list_all is_decimal_digit s \<Longrightarrow> 0 \<le> int_of_digits s"
proof (induction s rule: rev_induct)
  case Nil
  then show ?case by (simp add: int_of_digits_def)
next
  case (snoc c s)
  then have "0 \<le> int_of_digits s" and "48 \<le> (of_char c :: nat)"
    by (simp_all add: is_decimal_digit_def)
  then show ?case by (simp add: int_of_digits_snoc)
qed

lemma parse_octet_range: "parse_octet s = Some b \<Longrightarrow> 0 \<le> b \<and> b \<le> 255"
  by (auto simp: parse_octet_def Let_def isascii_isdigit_def int_of_digits_nonneg split: if_splits)

lemma all_some_map: "all_some xs = Some ys \<Longrightarrow> xs = map Some ys"
  by (induction xs arbitrary: ys rule: all_some.induct) (auto split: option.splits)

lemma from_bytes4_range:
  fixes b1 b2 b3 b4 :: int
  assumes "0 \<le> b1 \<and> b1 \<le> 255" "0 \<le> b2 \<and> b2 \<le> 255" "0 \<le> b3 \<and> b3 \<le> 255" "0 \<le> b4 \<and> b4 \<le> 255"
  shows "0 \<le> from_bytes [b1, b2, b3, b4] \<and> from_bytes [b1, b2, b3, b4] < 2 ^ 32"
  using assms by (simp add: from_bytes_def)

lemma ip_int_from_string_range:
  assumes "ip_int_from_string s = Some a"
  shows "0 \<le> a \<and> a < 2 ^ 32"
proof -
  from assms obtain bs where
    l: "length (split_str CHR ''.'' s) = 4" and
    b: "all_some (map parse_octet (split_str CHR ''.'' s)) = Some bs" and a: "a = from_bytes bs"
    by (auto simp: ip_int_from_string_def Let_def split: if_splits option.splits)
  from all_some_map [OF b] have m: "map parse_octet (split_str CHR ''.'' s) = map Some bs" .
  then have "length bs = 4" using l by (metis length_map)
  then obtain b1 b2 b3 b4 where bs: "bs = [b1, b2, b3, b4]"
    by (auto simp: length_Suc_conv numeral_eq_Suc)
  from m bs have "\<forall>b \<in> set bs. \<exists>t. parse_octet t = Some b"
    by (metis (no_types, lifting) imageE list.set_map image_eqI)
  then have "\<forall>b \<in> set bs. 0 \<le> b \<and> b \<le> 255" using parse_octet_range by blast
  then show ?thesis unfolding a bs using from_bytes4_range by simp
qed

lemma ALL_ONES_mask: "ALL_ONES = mask 32"
  by (simp add: ALL_ONES_def mask_eq_exp_minus_1)

lemma ip_int_from_prefix_mask: "ip_int_from_prefix p = mask 32 XOR mask (32 - p)"
  by (simp add: ip_int_from_prefix_def ALL_ONES_mask drop_bit_mask_eq)

lemma hostmask_mask: "netmask n = ip_int_from_prefix p \<Longrightarrow> hostmask n = mask (32 - p)"
  by (simp add: hostmask_def ip_int_from_prefix_mask ALL_ONES_mask xor.assoc xor.commute xor.left_commute)

lemma and_netmask:
  fixes a :: int
  assumes "0 \<le> a" "a < 2 ^ 32" "k \<le> 32"
  shows "a AND (mask 32 XOR mask k) = push_bit k (drop_bit k a)"
proof -
  have t: "take_bit 32 a = a" using assms by (simp add: take_bit_int_eq_self)
  have "take_bit 32 a AND (mask 32 XOR mask k) = push_bit k (drop_bit k (take_bit 32 a))"
    using assms(3) by (auto simp: bit_eq_iff bit_simps)
  then show ?thesis by (simp add: t)
qed

lemma push_drop_eq: "push_bit k (drop_bit k a) = a - a mod 2 ^ k" for a :: int
  using bits_ident [of k a] by (simp add: take_bit_eq_mod)

lemma or_hostmask: "push_bit k q OR mask k = push_bit k q + 2 ^ k - 1" for q :: int
proof -
  have "push_bit k q AND mask k = 0" by (auto simp: bit_eq_iff bit_simps)
  then have "push_bit k q + mask k = push_bit k q OR mask k" by (rule disjunctive_add_eq_or)
  then show ?thesis by (simp add: mask_eq_exp_minus_1)
qed

lemma prefix_from_ip_int_le: "prefix_from_ip_int a = Some p \<Longrightarrow> p \<le> 32"
  by (auto simp: prefix_from_ip_int_def Let_def max_prefixlen_def split: if_splits)

lemma make_netmask_props:
  assumes "make_netmask arg = Some (nm, p)"
  shows "p \<le> 32 \<and> nm = ip_int_from_prefix p"
  using assms prefix_from_ip_int_le
  by (auto simp: make_netmask_def max_prefixlen_def prefix_from_prefix_string_def
        prefix_from_ip_string_def Let_def split: option.splits if_splits)

lemma IPv4Network_init_props:
  assumes "IPv4Network_init pool = Some n"
  shows "prefixlen n \<le> 32" "0 \<le> addr n" "addr n < 2 ^ 32"
    "netmask n = ip_int_from_prefix (prefixlen n)"
    "network_address n = addr n AND netmask n"
proof -
  from assms obtain a m packed nm p where
    h: "ip_int_from_string a = Some packed" "make_netmask m = Some (nm, p)"
       "n = \<lparr> network_address = (if packed AND nm \<noteq> packed then packed AND nm else packed),
              netmask = nm, prefixlen = p, addr = packed \<rparr>"
    by (auto simp: IPv4Network_init_def split: option.splits prod.splits)
  from ip_int_from_string_range [OF h(1)] make_netmask_props [OF h(2)] h(3)
  show "prefixlen n \<le> 32" "0 \<le> addr n" "addr n < 2 ^ 32"
    "netmask n = ip_int_from_prefix (prefixlen n)"
    "network_address n = addr n AND netmask n"
    by auto
qed

lemma network_arith:
  assumes "IPv4Network_init pool = Some n"
  shows "network_address n = addr n - addr n mod 2 ^ (32 - prefixlen n)"
    and "broadcast_address n = network_address n + 2 ^ (32 - prefixlen n) - 1"
    and "0 \<le> network_address n" and "broadcast_address n < 2 ^ 32"
proof -
  note p = IPv4Network_init_props [OF assms]
  let ?k = "32 - prefixlen n"
  have na: "network_address n = push_bit ?k (drop_bit ?k (addr n))"
    using p and_netmask [of "addr n" ?k] by (simp add: ip_int_from_prefix_mask)
  then show 1: "network_address n = addr n - addr n mod 2 ^ ?k" by (simp add: push_drop_eq)
  show 2: "broadcast_address n = network_address n + 2 ^ ?k - 1"
    unfolding broadcast_address_def hostmask_mask [OF p(4)] na by (rule or_hostmask)
  have m: "0 \<le> addr n mod 2 ^ ?k" by (rule pos_mod_sign) simp
  have "addr n mod 2 ^ ?k \<le> addr n" using p(2) by (rule zmod_le_nonneg_dividend)
  with 1 show 3: "0 \<le> network_address n" by simp
  have "network_address n \<le> addr n" using 1 m by simp
  then have lt: "network_address n < 2 ^ 32" using p(3) by simp
  have pk: "(2 :: int) ^ ?k \<le> 2 ^ 32" by (rule power_increasing) simp_all
  have "mask ?k < (2 :: int) ^ 32"
    unfolding mask_eq_exp_minus_1 using pk by linarith
  with 3 lt show "broadcast_address n < 2 ^ 32"
    unfolding broadcast_address_def hostmask_mask [OF p(4)] by (intro OR_upper)
qed

lemma hosts_range:
  assumes "IPv4Network_init pool = Some n" "a \<in> set (hosts n)"
  shows "0 \<le> a \<and> a < 2 ^ 32"
proof -
  note p = IPv4Network_init_props [OF assms(1)] and r = network_arith(3,4) [OF assms(1)]
  from assms(2) have "a = addr n \<or> (network_address n \<le> a \<and> a \<le> broadcast_address n)"
    by (auto simp: hosts_def IPv4Network_iter_def split: if_splits)
  with p(2,3) r show ?thesis by auto
qed

lemma hosts_distinct: "distinct (hosts n)"
  by (simp add: hosts_def IPv4Network_iter_def)

lemma pool_distinct:
  assumes "IPv4Network_init pool = Some n"
  shows "distinct (map string_from_ip_int (hosts n))"
proof -
  have "inj_on string_from_ip_int (set (hosts n))"
  proof (rule inj_onI)
    fix a b assume "a \<in> set (hosts n)" "b \<in> set (hosts n)"
      and e: "string_from_ip_int a = string_from_ip_int b"
    then have "0 \<le> a \<and> a < 2 ^ 32" "0 \<le> b \<and> b < 2 ^ 32"
      using hosts_range [OF assms] by blast+
    with e show "a = b" using string_from_ip_int_inj by blast
  qed
  with hosts_distinct show ?thesis by (simp add: distinct_map)
qed

lemma table_range_step:
  "process_packet env s p = Inr (s', out) \<Longrightarrow>
     ran (allocated_ips s') \<subseteq> ran (allocated_ips s) \<union> set (map bootp_yiaddr (filter is_offer out))"
  using process_packet_cases [of env s p s' out]
  by (auto simp: ran_def split: if_splits)

lemma table_range:
  "sniff env s es = Inr (Waiting s' out) \<Longrightarrow>
     ran (allocated_ips s') \<subseteq> ran (allocated_ips s) \<union> set (map bootp_yiaddr (filter is_offer out))"
proof (induction es arbitrary: s out)
  case Nil
  then show ?case by simp
next
  case (Cons e es)
  from Cons.prems obtain p s1 o1 o2 where
    h: "e = Captured p" "process_packet env s p = Inr (s1, o1)"
       "sniff env s1 es = Inr (Waiting s' o2)" "out = o1 @ o2"
    by (rule sniff_Waiting_Cons)
  from table_range_step [OF h(2)] Cons.IH [OF h(3)] h(4) show ?case by auto
qed

lemma filter_ends_upto:
  fixes i j :: int
  assumes "i \<le> j"
  shows "filter (\<lambda>a. a \<noteq> i \<and> a \<noteq> j) [i..j] = [i + 1..j - 1]"
proof (cases "i = j")
  case True
  then show ?thesis by simp
next
  case False
  with assms have lt: "i < j" by simp
  have "[i..j] = i # [i + 1..j]" using assms by (simp add: upto_rec1)
  also have "[i + 1..j] = [i + 1..j - 1] @ [j]" using lt by (simp add: upto_rec2)
  finally have s: "[i..j] = i # [i + 1..j - 1] @ [j]" .
  have "filter (\<lambda>a. a \<noteq> i \<and> a \<noteq> j) [i + 1..j - 1] = [i + 1..j - 1]"
    by (rule filter_True) auto
  then show ?thesis by (simp add: s)
qed

lemma hosts_as_block:
  assumes "IPv4Network_init pool = Some n"
  shows "hosts n =
           (if prefixlen n \<le> 30
            then filter (\<lambda>a. a \<noteq> network_address n \<and> a \<noteq> broadcast_address n) (IPv4Network_iter n)
            else IPv4Network_iter n)"
proof -
  note p = IPv4Network_init_props(1) [OF assms] and a = network_arith(1,2) [OF assms]
  have le: "network_address n \<le> broadcast_address n"
    using a(2) by simp
  consider "prefixlen n \<le> 30" | "prefixlen n = 31" | "prefixlen n = 32"
    using p by linarith
  then show ?thesis
  proof cases
    case 1
    then show ?thesis
      by (simp add: hosts_def max_prefixlen_def IPv4Network_iter_def filter_ends_upto [OF le])
  next
    case 2
    then show ?thesis by (simp add: hosts_def max_prefixlen_def)
  next
    case 3
    with a have "network_address n = addr n" "broadcast_address n = addr n" by simp_all
    with 3 show ?thesis by (simp add: hosts_def max_prefixlen_def IPv4Network_iter_def)
  qed
qed

lemma hosts_count:
  assumes "IPv4Network_init pool = Some n" "prefixlen n \<le> 30"
  shows "int (length (hosts n)) = 2 ^ (32 - prefixlen n) - 2"
proof -
  note a = network_arith(2) [OF assms(1)]
  have "(2::int) ^ 2 \<le> 2 ^ (32 - prefixlen n)"
    using assms(2) by (intro power_increasing) simp_all
  then have "(4::int) \<le> 2 ^ (32 - prefixlen n)" by simp
  then show ?thesis
    using assms(2) by (simp add: hosts_def max_prefixlen_def a)
qed

lemma n31: "IPv4Network_init ''10.0.0.2/31'' = Some point_to_point_network"
  unfolding point_to_point_network_def by code_simp

lemma h31: "ip_network_hosts example_env ''10.0.0.2/31'' = Inr [''10.0.0.2'', ''10.0.0.3'']"
  by code_simp

lemma i31: "init example_env ''eth0'' ''10.0.0.2/31'' ''255.255.255.254'' ''10.0.0.2'' [''8.8.8.8''] 300
    = Inr point_to_point_server"
  by (simp add: init_def h31 point_to_point_server_def)

section \<open>The pool and the table\<close>

text \<open>
  C2. Take a responder built on an IPv4 pool and any session that it has come through. The
  addresses offered so far, in order, followed by the pool as it stands, are the initial
  pool, whose addresses are pairwise distinct: so every offered address comes from the
  configured pool, left it when it was offered, and is offered once only, hence never to
  two hardware addresses. Every address in the allocation table is an offered one, none is
  still in the pool, and the table holds no more distinct addresses than the pool had.
\<close>

theorem pool_table_invariant:
  assumes "init env i pool m g d l = Inr s0" and "IPv4Network_init pool = Some n"
    and "sniff env s0 es = Inr (Waiting s out)"
  shows "available_ips s0 = map bootp_yiaddr (filter is_offer out) @ available_ips s \<and>
         distinct (available_ips s0) \<and>
         distinct (map bootp_yiaddr (filter is_offer out)) \<and>
         ran (allocated_ips s) \<subseteq> set (map bootp_yiaddr (filter is_offer out)) \<and>
         ran (allocated_ips s) \<inter> set (available_ips s) = {} \<and>
         card (ran (allocated_ips s)) \<le> length (available_ips s0) \<and>
         (\<forall>f1 \<in> set out. \<forall>f2 \<in> set out.
            is_offer f1 \<and> is_offer f2 \<and> bootp_yiaddr f1 = bootp_yiaddr f2 \<longrightarrow>
              bootp_chaddr f1 = bootp_chaddr f2)"
proof -
  let ?offered = "map bootp_yiaddr (filter is_offer out)"
  have a0: "available_ips s0 = map string_from_ip_int (hosts n)" and t0: "allocated_ips s0 = Map.empty"
    using init_IPv4 [OF assms(1,2)] by simp_all
  have 1: "available_ips s0 = ?offered @ available_ips s" using assms(3) by (rule pool_consumed)
  have 2: "distinct (available_ips s0)" unfolding a0 using assms(2) by (rule pool_distinct)
  from 1 2 have 3: "distinct ?offered" and dj: "set ?offered \<inter> set (available_ips s) = {}"
    by (metis distinct_append)+
  from table_range [OF assms(3)] have 4: "ran (allocated_ips s) \<subseteq> set ?offered"
    by (simp add: t0)
  from 4 dj have 5: "ran (allocated_ips s) \<inter> set (available_ips s) = {}" by blast
  have "card (ran (allocated_ips s)) \<le> card (set ?offered)"
    using 4 by (intro card_mono) simp_all
  also have "\<dots> \<le> length ?offered" by (rule card_length)
  also have "\<dots> \<le> length (available_ips s0)" by (subst 1) simp
  finally have 6: "card (ran (allocated_ips s)) \<le> length (available_ips s0)" .
  have inj: "inj_on bootp_yiaddr (set (filter is_offer out))"
    using 3 by (simp add: distinct_map)
  have 7: "\<forall>f1 \<in> set out. \<forall>f2 \<in> set out.
            is_offer f1 \<and> is_offer f2 \<and> bootp_yiaddr f1 = bootp_yiaddr f2 \<longrightarrow>
              bootp_chaddr f1 = bootp_chaddr f2"
  proof (intro ballI impI)
    fix f1 f2 assume "f1 \<in> set out" "f2 \<in> set out"
      and "is_offer f1 \<and> is_offer f2 \<and> bootp_yiaddr f1 = bootp_yiaddr f2"
    then have "f1 = f2" using inj by (auto dest: inj_onD)
    then show "bootp_chaddr f1 = bootp_chaddr f2" by simp
  qed
  from 1 2 3 4 5 6 7 show ?thesis by blast
qed

theorem pool_table_invariant_witness:
  "sniff example_env example_server
     [Captured (discover ''aa:bb:cc:00:00:01'' 1), Captured (request ''aa:bb:cc:00:00:01'' 2)]
     = Inr (Waiting leased_server
         [example_reply ''offer'' 1 ''192.168.50.1'', example_reply ''ack'' 2 ''192.168.50.1'']) \<and>
   available_ips example_server = [''192.168.50.1''] @ available_ips leased_server \<and>
   distinct (available_ips example_server) \<and>
   ran (allocated_ips leased_server) \<subseteq> set [''192.168.50.1''] \<and>
   ran (allocated_ips leased_server) \<inter> set (available_ips leased_server) = {} \<and>
   card (ran (allocated_ips leased_server)) \<le> 6"
proof -
  have h: "sniff example_env example_server
     [Captured (discover ''aa:bb:cc:00:00:01'' 1), Captured (request ''aa:bb:cc:00:00:01'' 2)]
     = Inr (Waiting leased_server
         [example_reply ''offer'' 1 ''192.168.50.1'', example_reply ''ack'' 2 ''192.168.50.1''])"
    by (simp add: run_example)
  have f: "map bootp_yiaddr (filter is_offer
             [example_reply ''offer'' 1 ''192.168.50.1'', example_reply ''ack'' 2 ''192.168.50.1''])
           = [''192.168.50.1'']"
    by (simp add: example_reply_def bootp_yiaddr_reply_frame)
  have l: "length (available_ips example_server) = 6" by (simp add: example_server_def)
  from pool_table_invariant [OF i29 n29 h, unfolded f l] h show ?thesis
    by blast
qed

text \<open>
  What the constructor computes. For an IPv4 pool of prefix length at most 30 the pool is
  the block of the network, from \<open>addr - addr mod 2^(32 - prefixlen)\<close> upwards,
  \<open>2^(32 - prefixlen)\<close> addresses, in ascending order without its first (network) and last
  (broadcast) address, and nothing else is left out; there the gateway is in the pool
  whenever it is a host address of the block. For a /31 and a /32 the pool is the whole
  block, the two addresses or the one.
\<close>

lemma pool_at_construction:
  assumes "init env i pool m g d l = Inr s" and "IPv4Network_init pool = Some n"
  shows "available_ips s = map string_from_ip_int
           (if prefixlen n \<le> 30
            then filter (\<lambda>a. a \<noteq> network_address n \<and> a \<noteq> broadcast_address n) (IPv4Network_iter n)
            else IPv4Network_iter n) \<and>
         prefixlen n \<le> 32 \<and>
         network_address n = addr n - addr n mod 2 ^ (32 - prefixlen n) \<and>
         broadcast_address n = network_address n + 2 ^ (32 - prefixlen n) - 1 \<and>
         (prefixlen n \<le> 30 \<longrightarrow> int (length (available_ips s)) = 2 ^ (32 - prefixlen n) - 2) \<and>
         (\<forall>a. gateway s = string_from_ip_int a \<and> a \<in> set (IPv4Network_iter n) \<and>
              (prefixlen n \<le> 30 \<longrightarrow> a \<noteq> network_address n \<and> a \<noteq> broadcast_address n) \<longrightarrow>
              gateway s \<in> set (available_ips s))"
proof -
  have a0: "available_ips s = map string_from_ip_int (hosts n)"
    using init_IPv4 [OF assms] by simp
  have 1: "available_ips s = map string_from_ip_int
           (if prefixlen n \<le> 30
            then filter (\<lambda>a. a \<noteq> network_address n \<and> a \<noteq> broadcast_address n) (IPv4Network_iter n)
            else IPv4Network_iter n)"
    unfolding a0 using hosts_as_block [OF assms(2)] by simp
  have 2: "prefixlen n \<le> 30 \<longrightarrow> int (length (available_ips s)) = 2 ^ (32 - prefixlen n) - 2"
    unfolding a0 using hosts_count [OF assms(2)] by simp
  have 3: "\<forall>a. gateway s = string_from_ip_int a \<and> a \<in> set (IPv4Network_iter n) \<and>
              (prefixlen n \<le> 30 \<longrightarrow> a \<noteq> network_address n \<and> a \<noteq> broadcast_address n) \<longrightarrow>
              gateway s \<in> set (available_ips s)"
    unfolding 1 by auto
  from 1 2 3 IPv4Network_init_props(1) [OF assms(2)] network_arith(1,2) [OF assms(2)]
  show ?thesis by blast
qed

lemma pool_at_construction_example:
  "init example_env ''eth0'' ''192.168.50.0/29'' ''255.255.255.248'' ''192.168.50.1''
     [''not-an-ip'', ''8.8.8.8'', ''1.1.1.1''] 300 = Inr example_server \<and>
   int (length (available_ips example_server)) = 6 \<and>
   gateway example_server = ''192.168.50.1'' \<and>
   gateway example_server \<in> set (available_ips example_server)"
proof -
  let ?n = "\<lparr>network_address = 3232248320, netmask = 4294967288, prefixlen = 29, addr = 3232248320\<rparr>"
  have g: "gateway example_server = string_from_ip_int 3232248321"
  proof -
    have "string_from_ip_int 3232248321 = ''192.168.50.1''" by code_simp
    then show ?thesis by (simp add: example_server_def)
  qed
  have b: "(3232248321 :: int) \<in> set (IPv4Network_iter ?n)"
    by code_simp
  have c: "(3232248321 :: int) \<noteq> network_address ?n \<and> 3232248321 \<noteq> broadcast_address ?n"
    by code_simp
  from pool_at_construction [OF i29 n29]
  have 1: "int (length (available_ips example_server)) = 2 ^ (32 - 29) - 2"
    and 2: "gateway example_server \<in> set (available_ips example_server)"
    using g b c by auto
  from 1 2 i29 show ?thesis by (simp add: example_server_def)
qed

text \<open>
  C4. The pool at construction is to be the host addresses of the configured block with
  the network and the broadcast address left out, as the comment on the constructor's
  \<^verbatim>\<open>network.hosts()\<close> says (\<^verbatim>\<open>Skips broadcast and network addresses\<close>). The code misses this
  on a /31: the responder built on \<^verbatim>\<open>10.0.0.2/31\<close> has a pool of exactly two addresses,
  the network address and the broadcast address of the block, and will offer both.
\<close>

theorem pool_slash_31_holds_network_and_broadcast:
  "init example_env ''eth0'' ''10.0.0.2/31'' ''255.255.255.254'' ''10.0.0.2'' [''8.8.8.8''] 300
     = Inr point_to_point_server \<and>
   IPv4Network_init ''10.0.0.2/31'' = Some point_to_point_network \<and>
   available_ips point_to_point_server =
     [string_from_ip_int (network_address point_to_point_network),
      string_from_ip_int (broadcast_address point_to_point_network)]"
proof -
  have "string_from_ip_int (network_address point_to_point_network) = ''10.0.0.2''"
    unfolding point_to_point_network_def by code_simp
  moreover have "string_from_ip_int (broadcast_address point_to_point_network) = ''10.0.0.3''"
    unfolding point_to_point_network_def by code_simp
  ultimately show ?thesis
    by (simp add: i31 n31) (simp add: point_to_point_server_def)
qed

end
